theory Spec2Isabelle
  imports Complex_Main "HOL-Library.Word"
begin

section \<open>Strings\<close>

text \<open>
  JavaScript strings are modelled as \<^typ>\<open>string\<close>. \<open>s.startsWith(p)\<close> compares the first
  \<open>p.length\<close> characters of \<open>s\<close> with \<open>p\<close>; \<open>s.slice(n)\<close> with \<open>0 \<le> n\<close> drops the first
  \<open>n\<close> characters; \<open>s.endsWith(p)\<close> compares the last \<open>p.length\<close> characters.
\<close>

definition startsWith :: "string \<Rightarrow> string \<Rightarrow> bool" where
  "startsWith s p = (take (length p) s = p)"

definition slice :: "string \<Rightarrow> nat \<Rightarrow> string" where
  "slice s n = drop n s"

definition endsWith :: "string \<Rightarrow> string \<Rightarrow> bool" where
  "endsWith s p = (length p \<le> length s \<and> drop (length s - length p) s = p)"

section \<open>Exceptions\<close>

text \<open>
  The exceptions that the modelled code can meet: the engine's \<open>RangeError\<close> (a typed-array
  \<open>set\<close> out of bounds, or the call stack exceeded) and whatever a collaborator throws.
\<close>

datatype error = RangeError | Thrown string

section \<open>Atlas Builder (\<open>ResourceManager.loadBlockAtlas\<close>)\<close>

text \<open>
  Modelled from the spec: \<open>upperPowerOfTwo\<close> is imported from the rendering library and its
  code is not part of the repository. The spec gives the target canvas dimension as the
  smallest power of two that is at least the source dimension; \<open>next_pow2 p n\<close> doubles
  \<open>p\<close> until it reaches \<open>n\<close>.
\<close>

function next_pow2 :: "nat \<Rightarrow> nat \<Rightarrow> nat" where
  "next_pow2 p n = (if p = 0 \<or> n \<le> p then p else next_pow2 (2 * p) n)"
  by pat_completeness auto
termination
  by (relation "measure (\<lambda>(p, n). n - p)") auto

declare next_pow2.simps [simp del]

definition upperPowerOfTwo :: "nat \<Rightarrow> nat" where
  "upperPowerOfTwo n = next_pow2 1 n"

text \<open>
  Modelled from the spec: \<open>Identifier.create(path).toString()\<close> belongs to the same library.
  The spec gives the canonical string form \<open>namespace:path\<close>; \<open>create\<close> puts a bare path
  into the default namespace.
\<close>

definition Identifier_create :: "string \<Rightarrow> string" where
  "Identifier_create p = ''minecraft:'' @ p"

text \<open>
  A UV rectangle \<open>(u0, v0, u1, v1)\<close>. The raw entries are integers in source pixels and the
  canvas dimensions are powers of two, so each quotient is computed here as a rational.
\<close>

type_synonym UV = "rat \<times> rat \<times> rat \<times> rat"

type_synonym raw_entry = "string \<times> int \<times> int \<times> int \<times> int"

text \<open>Line 295: \<open>const dv2 = (du !== dv && rawId.startsWith('block/')) ? du : dv\<close>.\<close>

definition dv2 :: "string \<Rightarrow> int \<Rightarrow> int \<Rightarrow> int" where
  "dv2 rawId du dv = (if du \<noteq> dv \<and> startsWith rawId ''block/'' then du else dv)"

text \<open>Line 296: the rectangle stored for one entry, for a canvas of \<open>w\<close> by \<open>h\<close> pixels.\<close>

definition entry_uv :: "nat \<Rightarrow> nat \<Rightarrow> string \<Rightarrow> int \<times> int \<times> int \<times> int \<Rightarrow> UV" where
  "entry_uv w h rawId tuple =
     (case tuple of (u, v, du, dv) \<Rightarrow>
        (of_int u / of_nat w, of_int v / of_nat h,
         of_int (u + du) / of_nat w, of_int (v + dv2 rawId du dv) / of_nat h))"

text \<open>
  The loop of lines 293 to 297 over \<open>Object.entries(textures)\<close>: each entry assigns
  \<open>idMap[Identifier.create(rawId).toString()]\<close>, a later assignment to the same key
  replacing an earlier one. The bitmap itself plays no part in the mapping beyond its
  width and height.
\<close>

definition loadBlockAtlas :: "nat \<Rightarrow> nat \<Rightarrow> raw_entry list \<Rightarrow> (string \<rightharpoonup> UV)" where
  "loadBlockAtlas image_width image_height textures =
     (let w = upperPowerOfTwo image_width;
          h = upperPowerOfTwo image_height
      in fold (\<lambda>(rawId, tuple) idMap. idMap(Identifier_create rawId \<mapsto> entry_uv w h rawId tuple))
           textures Map.empty)"

section \<open>Insertion-ordered sets\<close>

text \<open>
  A JavaScript \<open>Set\<close> keeps its elements in insertion order without repetition: \<open>add\<close> of an
  element already present changes nothing, and spreading or iterating the set yields the
  elements in that order. It is modelled as the list of its elements.
\<close>

type_synonym 'a js_set = "'a list"

definition set_add :: "'a js_set \<Rightarrow> 'a \<Rightarrow> 'a js_set" where
  "set_add s x = (if x \<in> set s then s else s @ [x])"

definition new_Set :: "'a list \<Rightarrow> 'a js_set" where
  "new_Set xs = fold (\<lambda>x s. set_add s x) xs []"

definition has :: "'a js_set \<Rightarrow> 'a \<Rightarrow> bool" where
  "has s x = (x \<in> set s)"

section \<open>Classification Rule Engine (\<open>twoD-overrides.ts\<close>)\<close>

definition COLORS :: "string list" where
  "COLORS = [''white'', ''light_gray'', ''gray'', ''black'', ''brown'', ''red'', ''orange'',
     ''yellow'', ''lime'', ''green'', ''cyan'', ''light_blue'', ''blue'', ''purple'', ''magenta'',
     ''pink'']"

definition COPPER_BASES :: "string list" where
  "COPPER_BASES = [''copper_lantern'', ''copper_chain'', ''copper_door'', ''copper_bars'',
     ''copper_torch'']"

definition WAX_STATES :: "string list" where
  "WAX_STATES = ['''', ''waxed'']"

definition OXIDATION_STATES :: "string list" where
  "OXIDATION_STATES = ['''', ''exposed'', ''weathered'', ''oxidized'']"

definition CORAL_TYPES :: "string list" where
  "CORAL_TYPES = [''tube'', ''horn'', ''fire'', ''brain'', ''bubble'']"

definition SAPLING_TYPES :: "string list" where
  "SAPLING_TYPES = [''spruce'', ''oak'', ''birch'', ''pale_oak'', ''cherry'', ''dark_oak'',
     ''jungle'', ''acacia'', ''mangrove'']"

definition SINGLE_IDS :: "string list" where
  "SINGLE_IDS = [''warped_roots'', ''weeping_vines'', ''torchflower'', ''vine'',
     ''warped_fungus'', ''twisting_vines'', ''tripwire_hook'', ''tipped_arrow'', ''torch'',
     ''tinted_glass'', ''tall_grass'', ''tall_dry_grass'', ''sunflower'', ''soul_torch'',
     ''small_amethyst_bud'', ''short_grass'', ''short_dry_grass'', ''rose_bush'',
     ''redstone_torch'', ''red_tulip'', ''red_mushroom'', ''recovery_compass'', ''rail'',
     ''powered_rail'', ''poppy'', ''pink_tulip'', ''peony'', ''oxeye_daisy'', ''orange_tulip'',
     ''open_eyeblossom'', ''medium_amethyst_bud'', ''lily_pad'', ''lily_of_the_valley'',
     ''lilac'', ''lever'', ''large_amethyst_bud'', ''large_fern'', ''hanging_roots'',
     ''glass_pane'', ''frogspawn'', ''fern'', ''enchanted_golden_apple'', ''detector_rail'',
     ''debug_stick'', ''dandelion'', ''crimson_fungus'', ''crimson_roots'', ''cornflower'',
     ''amethyst_cluster'', ''allium'', ''activator_rail'', ''azure_bluet'', ''brown_mushroom'',
     ''bush'', ''cactus_flower'', ''clock'', ''cobweb'', ''compass'', ''closed_eyeblossom'']"

text \<open>\<open>SuffixRule.generate\<close>: \<open>bases.map(b => `${b}_${suffix}`)\<close>.\<close>

definition SuffixRule_generate :: "string list \<Rightarrow> string \<Rightarrow> string list" where
  "SuffixRule_generate bases suffix = map (\<lambda>b. b @ ''_'' @ suffix) bases"

text \<open>\<open>Array.prototype.join\<close> on strings: the elements separated by \<open>sep\<close>.\<close>

fun join :: "string \<Rightarrow> string list \<Rightarrow> string" where
  "join sep [] = []"
| "join sep [x] = x"
| "join sep (x # y # ys) = x @ sep @ join sep (y # ys)"

text \<open>
  \<open>PrefixComboRule.generate\<close>. The closure \<open>recurse(idx, tokens)\<close> walks \<open>prefixGroups\<close>
  from index \<open>0\<close> to its length; the groups still to visit, \<open>prefixGroups.slice(idx)\<close>,
  stand for \<open>idx\<close> here, so \<open>idx === prefixGroups.length\<close> is the empty list. The set \<open>out\<close>
  that the closure mutates is passed through. \<open>tokens.filter(Boolean)\<close> keeps the non-empty
  strings, and \<open>prefix ? ... : base\<close> tests \<open>prefix\<close> for being non-empty.
\<close>

fun recurse :: "string \<Rightarrow> string list list \<Rightarrow> string list \<Rightarrow> string js_set \<Rightarrow> string js_set" where
  "recurse base [] tokens out =
     (let nonEmpty = filter (\<lambda>t. t \<noteq> []) tokens;
          prefix = join ''_'' nonEmpty
      in set_add out (if prefix \<noteq> [] then prefix @ ''_'' @ base else base))"
| "recurse base (g # groups) tokens out =
     fold (\<lambda>p out'. recurse base groups (tokens @ [p]) out') g out"

definition PrefixComboRule_generate :: "string list \<Rightarrow> string list list \<Rightarrow> string list" where
  "PrefixComboRule_generate bases prefixGroups =
     fold (\<lambda>base out. recurse base prefixGroups [] out) bases []"

text \<open>\<open>CoralRule.generate\<close>: a \<open>flatMap\<close> to four names per type.\<close>

definition CoralRule_generate :: "string list \<Rightarrow> string list" where
  "CoralRule_generate types =
     concat (map (\<lambda>t. [t @ ''_coral'', t @ ''_coral_fan'',
                         ''dead_'' @ t @ ''_coral'', ''dead_'' @ t @ ''_coral_fan'']) types)"

definition ListRule_generate :: "string list \<Rightarrow> string list" where
  "ListRule_generate ids = ids"

text \<open>The four classes implementing \<open>TwoDRule\<close>, with their constructor arguments.\<close>

datatype TwoDRule =
    SuffixRule "string list" string
  | PrefixComboRule "string list" "string list list"
  | CoralRule "string list"
  | ListRule "string list"

fun generate :: "TwoDRule \<Rightarrow> string list" where
  "generate (SuffixRule bases suffix) = SuffixRule_generate bases suffix"
| "generate (PrefixComboRule bases prefixGroups) = PrefixComboRule_generate bases prefixGroups"
| "generate (CoralRule types) = CoralRule_generate types"
| "generate (ListRule ids) = ListRule_generate ids"

definition rules :: "TwoDRule list" where
  "rules = [SuffixRule COLORS ''stained_glass_pane'',
            PrefixComboRule COPPER_BASES [WAX_STATES, OXIDATION_STATES],
            CoralRule CORAL_TYPES,
            SuffixRule SAPLING_TYPES ''sapling'',
            ListRule SINGLE_IDS]"

definition getHardcodedTwoDItemIds :: "string js_set" where
  "getHardcodedTwoDItemIds =
     fold (\<lambda>rule out. fold (\<lambda>id' out'. set_add out' id') (generate rule) out) rules []"

section \<open>Detection pass (\<open>fetchTwoDItemIds\<close>) and the classification set of \<open>main\<close>\<close>

text \<open>
  \<open>fetchTwoDItemIds\<close>, given the texture registry that the fetch returned. \<open>if (id)\<close> tests
  the string for being non-empty.
\<close>

definition fetchTwoDItemIds :: "string list \<Rightarrow> string js_set" where
  "fetchTwoDItemIds textures =
     fold (\<lambda>tex twoD.
             if startsWith tex ''item/''
             then (let id' = slice tex (length ''item/'')
                   in if id' \<noteq> [] then set_add twoD id' else twoD)
             else twoD)
       textures []"

definition RENDER_SIZE :: nat where
  "RENDER_SIZE = 128"

text \<open>Line 55: \<open>new Set([...detectedTwoDItemIds, ...getHardcodedTwoDItemIds()])\<close>.\<close>

definition twoDItemIds :: "string js_set \<Rightarrow> string js_set" where
  "twoDItemIds detectedTwoDItemIds = new_Set (detectedTwoDItemIds @ getHardcodedTwoDItemIds)"

text \<open>Line 84: \<open>const size = twoDItemIds.has(id) ? 16 : RENDER_SIZE\<close>.\<close>

definition render_size :: "string js_set \<Rightarrow> string \<Rightarrow> nat" where
  "render_size ids id' = (if has ids id' then 16 else RENDER_SIZE)"

section \<open>Item Component Tree Converter (\<open>jsonToNbt\<close>)\<close>

text \<open>
  A JavaScript number is a finite value, \<open>NaN\<close> or an infinity (\<open>Infinity True\<close> is the
  positive one). \<open>Number.isInteger\<close> holds for the finite values without a fractional part.
\<close>

datatype number = Num rat | NaN | Infinity bool

definition Number_isInteger :: "number \<Rightarrow> bool" where
  "Number_isInteger n = (case n of Num q \<Rightarrow> of_int \<lfloor>q\<rfloor> = q | _ \<Rightarrow> False)"

text \<open>
  The raw values \<open>jsonToNbt\<close> tells apart, in the order of its tests: a string, a number, a
  boolean, an array, a non-null object, and the rest: \<open>null\<close>, \<open>undefined\<close>, and any other
  value (a function, a symbol, a bigint). An object is given by its own properties in the
  order in which they were created, which for a parsed JSON text is the order of the text;
  its keys are distinct.
\<close>

datatype json =
    JString string
  | JNumber number
  | JBoolean bool
  | JArray "json list"
  | JObject "(string \<times> json) list"
  | JNull
  | JUndefined
  | JOther

datatype NbtTag =
    NbtString string
  | NbtInt int
  | NbtDouble number
  | NbtByte int
  | NbtList "NbtTag list"
  | NbtCompound "(string \<times> NbtTag) list"

text \<open>
  Modelled from the spec: the constructor \<open>new NbtByte(value)\<close> belongs to the library; the
  spec gives a boolean as the byte tag 1 or 0.
\<close>

definition NbtByte_of_boolean :: "bool \<Rightarrow> NbtTag" where
  "NbtByte_of_boolean b = NbtByte (if b then 1 else 0)"

text \<open>
  \<open>new Map(entries)\<close>: the entries are inserted in order; a key already present keeps its
  place and takes the new value.
\<close>

fun map_set :: "('k \<times> 'v) list \<Rightarrow> 'k \<Rightarrow> 'v \<Rightarrow> ('k \<times> 'v) list" where
  "map_set [] k v = [(k, v)]"
| "map_set ((k', v') # m) k v = (if k' = k then (k, v) # m else (k', v') # map_set m k v)"

definition new_Map :: "('k \<times> 'v) list \<Rightarrow> ('k \<times> 'v) list" where
  "new_Map entries = fold (\<lambda>(k, v) m. map_set m k v) entries []"

text \<open>
  \<open>Object.entries\<close> lists the own properties of an object with the keys that are array
  indices first, in ascending numeric order, and the other keys after them in the order
  of their creation. An array index is the canonical decimal form of an integer from \<open>0\<close>
  to \<open>2^32 - 2\<close>: digits only, with no leading zero.
\<close>

definition digit_value :: "char \<Rightarrow> nat option" where
  "digit_value c =
     (let n = of_char c :: nat in if 48 \<le> n \<and> n \<le> 57 then Some (n - 48) else None)"

definition array_index :: "string \<Rightarrow> nat option" where
  "array_index k =
     (if k \<noteq> [] \<and> list_all (\<lambda>c. digit_value c \<noteq> None) k \<and> (k = ''0'' \<or> hd k \<noteq> CHR ''0'')
      then (let n = foldl (\<lambda>n c. 10 * n + the (digit_value c)) 0 k
            in if n \<le> 4294967294 then Some n else None)
      else None)"

definition Object_entries :: "(string \<times> 'a) list \<Rightarrow> (string \<times> 'a) list" where
  "Object_entries props =
     sort_key (\<lambda>(k, v). the (array_index k)) (filter (\<lambda>(k, v). array_index k \<noteq> None) props) @
     filter (\<lambda>(k, v). array_index k = None) props"

text \<open>
  \<open>Array.prototype.map\<close> with a callback that may throw: the elements are visited in order
  and the first exception ends the call.
\<close>

fun collect :: "(error + 'a) list \<Rightarrow> error + 'a list" where
  "collect [] = Inr []"
| "collect (Inl e # rs) = Inl e"
| "collect (Inr x # rs) = (case collect rs of Inl e \<Rightarrow> Inl e | Inr xs \<Rightarrow> Inr (x # xs))"

text \<open>
  \<open>jsonToNbt\<close> (lines 340 to 357). The function has no \<open>throw\<close> of its own, but it calls
  itself once for every level of nesting, and the engine raises a \<open>RangeError\<close> when the
  call stack is full. The first argument is the number of activations of \<open>jsonToNbt\<close> that
  the stack still has room for.
\<close>

fun jsonToNbt :: "nat \<Rightarrow> json \<Rightarrow> error + NbtTag" where
  "jsonToNbt 0 v = Inl RangeError"
| "jsonToNbt (Suc stack) (JString s) = Inr (NbtString s)"
| "jsonToNbt (Suc stack) (JNumber n) =
     Inr (if Number_isInteger n then NbtInt (case n of Num q \<Rightarrow> \<lfloor>q\<rfloor> | _ \<Rightarrow> 0) else NbtDouble n)"
| "jsonToNbt (Suc stack) (JBoolean b) = Inr (NbtByte_of_boolean b)"
| "jsonToNbt (Suc stack) (JArray xs) =
     (case collect (map (\<lambda>x. jsonToNbt stack x) xs) of
        Inl e \<Rightarrow> Inl e
      | Inr tags \<Rightarrow> Inr (NbtList tags))"
| "jsonToNbt (Suc stack) (JObject props) =
     (case collect (map (\<lambda>(k, x). case jsonToNbt stack x of
                                      Inl e \<Rightarrow> Inl e
                                    | Inr t \<Rightarrow> Inr (k, t))
                      (Object_entries props)) of
        Inl e \<Rightarrow> Inl e
      | Inr entries \<Rightarrow> Inr (NbtCompound (new_Map entries)))"
| "jsonToNbt (Suc stack) JNull = Inr (NbtByte 0)"
| "jsonToNbt (Suc stack) JUndefined = Inr (NbtByte 0)"
| "jsonToNbt (Suc stack) JOther = Inr (NbtByte 0)"

section \<open>Vertical flip (\<open>flipYAxis\<close>)\<close>

type_synonym byte = "8 word"

text \<open>
  \<open>data.subarray(begin, end)\<close> for indices that are not negative: both are clamped to the
  length, and the view is empty when \<open>end \<le> begin\<close>.
\<close>

definition subarray :: "'a list \<Rightarrow> nat \<Rightarrow> nat \<Rightarrow> 'a list" where
  "subarray data begin end' = drop begin (take end' data)"

text \<open>
  \<open>target.set(source, offset)\<close> on typed arrays: a \<open>RangeError\<close> when the source does not
  fit at the offset, else the source overwrites the elements from \<open>offset\<close> on.
\<close>

definition typed_set :: "'a list \<Rightarrow> 'a list \<Rightarrow> nat \<Rightarrow> error + 'a list" where
  "typed_set target source offset =
     (if offset + length source > length target then Inl RangeError
      else Inr (take offset target @ source @ drop (offset + length source) target))"

text \<open>
  \<open>flipYAxis\<close>: \<open>result\<close> starts as \<open>data.length\<close> zero bytes; the loop runs \<open>row\<close> from \<open>0\<close>
  to \<open>height - 1\<close>, and an exception ends it. The width and height are natural numbers.
\<close>

definition flipYAxis :: "byte list \<Rightarrow> nat \<Rightarrow> nat \<Rightarrow> error + byte list" where
  "flipYAxis data width height =
     (let bytesPerRow = width * 4;
          result = replicate (length data) 0
      in fold (\<lambda>row acc.
                 case acc of
                   Inl e \<Rightarrow> Inl e
                 | Inr result \<Rightarrow>
                     (let srcStart = row * bytesPerRow;
                          destStart = (height - row - 1) * bytesPerRow
                      in typed_set result (subarray data srcStart (srcStart + bytesPerRow)) destStart))
           [0..<height] (Inr result))"

section \<open>Render Orchestrator (\<open>main\<close>, \<open>renderItemToPng\<close>) and Override Merger\<close>

text \<open>
  The collaborators of the orchestrator, whose code is outside the repository, are the
  fields of an environment: the keys of \<open>resources.itemModels\<close> (canonical ids); the
  rendering library with the offscreen surface (\<open>createGL\<close>, \<open>new ItemRenderer\<close>,
  \<open>drawItem\<close>), which for an item and a size yields the frame that \<open>readPixels\<close> reads or
  throws; the canvas encoder \<open>toBuffer('image/png')\<close>; and the file system calls
  \<open>writeFile\<close> and \<open>copyFile\<close>, which may throw.
\<close>

record env =
  itemModels :: "string set"
  drawItem :: "string \<Rightarrow> nat \<Rightarrow> error + byte list"
  toBuffer :: "byte list \<Rightarrow> nat \<Rightarrow> error + byte list"
  writeFile_error :: "string \<Rightarrow> byte list \<Rightarrow> error option"
  copyFile_error :: "string \<Rightarrow> bool"

text \<open>
  The output directory: file name to contents. \<open>access(outPath)\<close> succeeds when the file
  exists; \<open>path.join(outputDir, `${id}.png`)\<close> is the file \<open>id.png\<close> of that directory.
\<close>

type_synonym fs = "string \<rightharpoonup> byte list"

datatype outcome = SKIPPED_NO_MODEL | SKIPPED_EXISTS | SUCCEEDED | FAILED

text \<open>\<open>getItemModel\<close>: \<open>this.itemModels[id.toString()]\<close>, tested for being defined.\<close>

definition getItemModel :: "env \<Rightarrow> string \<Rightarrow> bool" where
  "getItemModel e identifier = (identifier \<in> itemModels e)"

text \<open>
  Lines 316 and 317: \<open>pixels\<close> is a buffer of \<open>size * size * 4\<close> zero bytes that
  \<open>readPixels\<close> fills from the frame.
\<close>

definition readPixels :: "nat \<Rightarrow> byte list \<Rightarrow> byte list" where
  "readPixels size' frame = take (size' * size' * 4) (frame @ replicate (size' * size' * 4) 0)"

text \<open>
  \<open>renderItemToPng\<close>: the frame is drawn and read, flipped, copied into the image data of
  a canvas of the same size (\<open>imageData.data.set(flipped)\<close>) and encoded.
\<close>

definition renderItemToPng :: "env \<Rightarrow> string \<Rightarrow> nat \<Rightarrow> error + byte list" where
  "renderItemToPng e item size' =
     (case drawItem e item size' of
        Inl err \<Rightarrow> Inl err
      | Inr frame \<Rightarrow>
          (let pixels = readPixels size' frame
           in case flipYAxis pixels size' size' of
                Inl err \<Rightarrow> Inl err
              | Inr flipped \<Rightarrow>
                  (case typed_set (replicate (size' * size' * 4) 0) flipped 0 of
                     Inl err \<Rightarrow> Inl err
                   | Inr imageData \<Rightarrow> toBuffer e imageData size')))"

text \<open>
  The body of the loop of \<open>main\<close> (lines 70 to 91) for one id: the new state of the output
  directory and the line that is logged. \<open>Identifier.parse\<close> of \<open>minecraft:\<close> followed by a
  registry id is taken to succeed, with that string as its canonical form.
\<close>

definition render_one :: "env \<Rightarrow> string js_set \<Rightarrow> string \<Rightarrow> fs \<Rightarrow> fs \<times> outcome" where
  "render_one e twoD id' files =
     (let identifier = ''minecraft:'' @ id'
      in if \<not> getItemModel e identifier then (files, SKIPPED_NO_MODEL)
         else
           (let outPath = id' @ ''.png''
            in if files outPath \<noteq> None then (files, SKIPPED_EXISTS)
               else
                 (let size' = render_size twoD id'
                  in case renderItemToPng e id' size' of
                       Inl err \<Rightarrow> (files, FAILED)
                     | Inr png \<Rightarrow>
                         (case writeFile_error e outPath png of
                            Some err \<Rightarrow> (files, FAILED)
                          | None \<Rightarrow> (files(outPath \<mapsto> png), SUCCEEDED)))))"

fun main_loop :: "env \<Rightarrow> string js_set \<Rightarrow> string list \<Rightarrow> fs \<Rightarrow> fs \<times> (string \<times> outcome) list" where
  "main_loop e twoD [] files = (files, [])"
| "main_loop e twoD (id' # ids) files =
     (case render_one e twoD id' files of
        (files1, oc) \<Rightarrow>
          (case main_loop e twoD ids files1 of
             (files2, entries) \<Rightarrow> (files2, (id', oc) # entries)))"

text \<open>\<open>String.prototype.toLowerCase\<close> on the ASCII letters.\<close>

definition toLowerCase :: "string \<Rightarrow> string" where
  "toLowerCase s =
     map (\<lambda>c. let n = of_char c :: nat in if 65 \<le> n \<and> n \<le> 90 then char_of (n + 32) else c) s"

text \<open>
  \<open>mergeHardcodedIcons\<close>. The source directory is \<open>None\<close> when \<open>readdir\<close> throws, else its
  entries: name, whether the entry is a file, and the contents. An exception of
  \<open>copyFile\<close> ends the loop, and the \<open>catch\<close> discards it.
\<close>

fun merge_entries :: "env \<Rightarrow> (string \<times> bool \<times> byte list) list \<Rightarrow> fs \<Rightarrow> fs" where
  "merge_entries e [] files = files"
| "merge_entries e ((name, isFile, content) # entries) files =
     (if isFile \<and> endsWith (toLowerCase name) ''.png''
      then (if copyFile_error e name then files
            else merge_entries e entries (files(name \<mapsto> content)))
      else merge_entries e entries files)"

definition mergeHardcodedIcons :: "env \<Rightarrow> (string \<times> bool \<times> byte list) list option \<Rightarrow> fs \<Rightarrow> fs" where
  "mergeHardcodedIcons e sourceDir files =
     (case sourceDir of None \<Rightarrow> files | Some entries \<Rightarrow> merge_entries e entries files)"

text \<open>
  \<open>main\<close>, from the fetched registries on: the classification set, the loop over
  \<open>availableIds\<close>, then the merge of the hand-made icons.
\<close>

definition main :: "env \<Rightarrow> string list \<Rightarrow> string list \<Rightarrow> (string \<times> bool \<times> byte list) list option \<Rightarrow>
    fs \<Rightarrow> fs \<times> (string \<times> outcome) list" where
  "main e availableIds textures hardcoded files =
     (let twoD = twoDItemIds (fetchTwoDItemIds textures)
      in case main_loop e twoD availableIds files of
           (files1, entries) \<Rightarrow> (mergeHardcodedIcons e hardcoded files1, entries))"

text \<open>
  A small run for exercising the orchestrator: \<open>air\<close> has no item model, \<open>stone.png\<close>
  exists already, drawing \<open>broken\<close> throws, writing \<open>locked.png\<close> throws, and every frame
  encodes to the same four bytes.
\<close>

definition demo_env :: env where
  "demo_env =
     \<lparr>itemModels = {''minecraft:stone'', ''minecraft:broken'', ''minecraft:locked'', ''minecraft:apple''},
      drawItem = (\<lambda>item size'. if item = ''broken'' then Inl (Thrown ''draw'') else Inr []),
      toBuffer = (\<lambda>flipped size'. Inr [137, 80, 78, 71]),
      writeFile_error = (\<lambda>outPath png. if outPath = ''locked.png'' then Some (Thrown ''EACCES'') else None),
      copyFile_error = (\<lambda>name. False)\<rparr>"

definition demo_files :: fs where
  "demo_files = [''stone.png'' \<mapsto> [1, 2, 3]]"

section \<open>Notions used in the statements\<close>

text \<open>
  The id that the spec describes for one base and one choice of tokens: the non-empty
  tokens joined with \<open>_\<close> and put before the base, or the bare base when every token is
  empty.
\<close>

definition combo_id :: "string \<Rightarrow> string list \<Rightarrow> string" where
  "combo_id base tokens =
     (if list_all (\<lambda>t. t = []) tokens then base
      else join ''_'' (filter (\<lambda>t. t \<noteq> []) tokens) @ ''_'' @ base)"

text \<open>Row \<open>r\<close> of a buffer whose rows are \<open>width\<close> pixels of 4 bytes.\<close>

definition row_of :: "'a list \<Rightarrow> nat \<Rightarrow> nat \<Rightarrow> 'a list" where
  "row_of buf width r = subarray buf (r * (width * 4)) (r * (width * 4) + width * 4)"

text \<open>One pass of the loop body, on the result so far or on the exception already raised.\<close>

definition flip_step :: "byte list \<Rightarrow> nat \<Rightarrow> nat \<Rightarrow> nat \<Rightarrow> error + byte list \<Rightarrow> error + byte list" where
  "flip_step data b height row acc =
     (case acc of
        Inl e \<Rightarrow> Inl e
      | Inr result \<Rightarrow> typed_set result (take b (drop (row * b) data)) ((height - Suc row) * b))"

text \<open>
  The nesting depth of a raw value: the number of activations of \<open>jsonToNbt\<close> that are on
  the stack at once while the value is converted.
\<close>

primrec depth :: "json \<Rightarrow> nat" where
  "depth (JString s) = 1"
| "depth (JNumber n) = 1"
| "depth (JBoolean b) = 1"
| "depth (JArray xs) = Suc (foldr max (map depth xs) 0)"
| "depth (JObject props) = Suc (foldr max (map snd (map (map_prod (\<lambda>k. k) depth) props)) 0)"
| "depth JNull = 1"
| "depth JUndefined = 1"
| "depth JOther = 1"

text \<open>Arrays nested \<open>n\<close> times inside an array.\<close>

fun nested_arrays :: "nat \<Rightarrow> json" where
  "nested_arrays 0 = JArray []"
| "nested_arrays (Suc n) = JArray [nested_arrays n]"

section \<open>Properties of the Atlas Builder\<close>

lemma next_pow2_ge: "0 < p \<Longrightarrow> n \<le> next_pow2 p n"
proof (induction p n rule: next_pow2.induct)
  case (1 p n)
  then show ?case by (subst next_pow2.simps) auto
qed

lemma next_pow2_is_pow2: "\<exists>k. next_pow2 (2 ^ j) n = 2 ^ k"
proof (induction "2 ^ j :: nat" n arbitrary: j rule: next_pow2.induct)
  case (1 n)
  show ?case
  proof (cases "n \<le> 2 ^ j")
    case True
    then show ?thesis by (subst next_pow2.simps) auto
  next
    case False
    then have "\<exists>k. next_pow2 (2 ^ Suc j) n = 2 ^ k"
      using "1"(1) [of "Suc j"] by simp
    with False show ?thesis by (subst next_pow2.simps) simp
  qed
qed

lemma upperPowerOfTwo_ge: "n \<le> upperPowerOfTwo n"
  by (simp add: upperPowerOfTwo_def next_pow2_ge)

lemma upperPowerOfTwo_is_pow2: "\<exists>k. upperPowerOfTwo n = 2 ^ k"
  using next_pow2_is_pow2 [of 0 n] by (simp add: upperPowerOfTwo_def)

lemma upperPowerOfTwo_pos: "0 < upperPowerOfTwo n"
  using upperPowerOfTwo_is_pow2 [of n] by auto


lemma Identifier_create_inj: "Identifier_create a = Identifier_create b \<longleftrightarrow> a = b"
  by (simp add: Identifier_create_def)

lemma fold_idMap_other:
  "k \<notin> Identifier_create ` fst ` set textures \<Longrightarrow>
   fold (\<lambda>(rawId, tuple) idMap. idMap(Identifier_create rawId \<mapsto> f rawId tuple)) textures m k = m k"
  by (induction textures arbitrary: m) auto

lemma fold_idMap_entry:
  "distinct (map fst textures) \<Longrightarrow> (rawId, tuple) \<in> set textures \<Longrightarrow>
   fold (\<lambda>(rawId, tuple) idMap. idMap(Identifier_create rawId \<mapsto> f rawId tuple)) textures m
     (Identifier_create rawId) = Some (f rawId tuple)"
proof (induction textures arbitrary: m)
  case Nil
  then show ?case by simp
next
  case (Cons e es)
  show ?case
  proof (cases "e = (rawId, tuple)")
    case True
    from Cons.prems(1) True have "rawId \<notin> fst ` set es" by simp
    then have "Identifier_create rawId \<notin> Identifier_create ` fst ` set es"
      by (force simp: Identifier_create_inj)
    then have "fold (\<lambda>(rawId, tuple) idMap. idMap(Identifier_create rawId \<mapsto> f rawId tuple)) es
        (m(Identifier_create rawId \<mapsto> f rawId tuple)) (Identifier_create rawId) =
        (m(Identifier_create rawId \<mapsto> f rawId tuple)) (Identifier_create rawId)"
      by (rule fold_idMap_other)
    also have "\<dots> = Some (f rawId tuple)"
      by simp
    finally show ?thesis using True by (simp del: fun_upd_apply)
  next
    case False
    with Cons.prems have "(rawId, tuple) \<in> set es" and "distinct (map fst es)" by auto
    then show ?thesis using Cons.IH by simp
  qed
qed

lemma loadBlockAtlas_lookup:
  "distinct (map fst textures) \<Longrightarrow> (rawId, tuple) \<in> set textures \<Longrightarrow>
   loadBlockAtlas image_width image_height textures (Identifier_create rawId) =
     Some (entry_uv (upperPowerOfTwo image_width) (upperPowerOfTwo image_height) rawId tuple)"
  by (simp add: loadBlockAtlas_def fold_idMap_entry)

text \<open>
  C1. For every raw entry \<open>(u, v, du, dv)\<close> of the UV table (an object, so its keys are
  distinct), the rectangle stored under the canonical id is
  \<open>(u/W, v/H, (u+du)/W, (v+du)/H)\<close> when the raw id starts with \<open>block/\<close> and \<open>du \<noteq> dv\<close>,
  and \<open>(u/W, v/H, (u+du)/W, (v+dv)/H)\<close> for every other entry, where \<open>W\<close> and \<open>H\<close> are the
  power-of-two canvas dimensions. In particular the entry \<open>du = 16\<close>, \<open>dv = 64\<close> under
  \<open>block/lava_flow\<close> spans \<open>16/H\<close> vertically, not \<open>64/H\<close>.
\<close>

theorem atlas_entry_rectangle:
  assumes "distinct (map fst textures)"
    and "(rawId, u, v, du, dv) \<in> set textures"
  shows "loadBlockAtlas image_width image_height textures (Identifier_create rawId) =
           Some (if startsWith rawId ''block/'' \<and> du \<noteq> dv
                 then (of_int u / of_nat (upperPowerOfTwo image_width),
                       of_int v / of_nat (upperPowerOfTwo image_height),
                       of_int (u + du) / of_nat (upperPowerOfTwo image_width),
                       of_int (v + du) / of_nat (upperPowerOfTwo image_height))
                 else (of_int u / of_nat (upperPowerOfTwo image_width),
                       of_int v / of_nat (upperPowerOfTwo image_height),
                       of_int (u + du) / of_nat (upperPowerOfTwo image_width),
                       of_int (v + dv) / of_nat (upperPowerOfTwo image_height))) \<and>
         (\<exists>j k. upperPowerOfTwo image_width = 2 ^ j \<and> upperPowerOfTwo image_height = 2 ^ k) \<and>
         (rawId = ''block/lava_flow'' \<and> du = 16 \<and> dv = 64 \<longrightarrow>
           (\<exists>u0 v0 u1 v1.
              loadBlockAtlas image_width image_height textures (Identifier_create rawId) =
                Some (u0, v0, u1, v1) \<and>
              v1 - v0 = 16 / of_nat (upperPowerOfTwo image_height)))"
    (is "?rect \<and> ?pow2 \<and> ?lava")
proof -
  have look: "loadBlockAtlas image_width image_height textures (Identifier_create rawId) =
      Some (entry_uv (upperPowerOfTwo image_width) (upperPowerOfTwo image_height) rawId
        (u, v, du, dv))"
    using assms by (rule loadBlockAtlas_lookup)
  have ?rect
    unfolding look by (simp add: entry_uv_def dv2_def)
  moreover have ?pow2
    using upperPowerOfTwo_is_pow2 [of image_width] upperPowerOfTwo_is_pow2 [of image_height]
    by blast
  moreover have ?lava
    unfolding look
    by (simp add: entry_uv_def dv2_def startsWith_def diff_divide_distrib [symmetric])
  ultimately show ?thesis by blast
qed

theorem atlas_entry_rectangle_witness:
  "distinct (map fst [(''block/lava_flow'', 0, 32, 16, 64), (''item/apple'', 16, 0, 16, 16 :: int)]) \<and>
   (''block/lava_flow'', 0, 32, 16, 64) \<in>
     set [(''block/lava_flow'', 0, 32, 16, 64), (''item/apple'', 16, 0, 16, 16 :: int)] \<and>
   loadBlockAtlas 100 128 [(''block/lava_flow'', 0, 32, 16, 64), (''item/apple'', 16, 0, 16, 16)]
     ''minecraft:block/lava_flow'' = Some (0, 1 / 4, 1 / 8, 3 / 8)"
proof -
  have d: "distinct (map fst [(''block/lava_flow'', 0, 32, 16, 64), (''item/apple'', 16, 0, 16, 16 :: int)])"
    by simp
  have m: "(''block/lava_flow'', 0, 32, 16, 64) \<in>
     set [(''block/lava_flow'', 0, 32, 16, 64), (''item/apple'', 16, 0, 16, 16 :: int)]"
    by simp
  have w: "upperPowerOfTwo 100 = 128" "upperPowerOfTwo 128 = 128"
    by (simp_all add: upperPowerOfTwo_def next_pow2.simps)
  show ?thesis
    using d m atlas_entry_rectangle [OF d m, of 100 128]
    by (simp add: w startsWith_def Identifier_create_def)
qed

text \<open>
  C2 as stated fails: nothing in the builder compares an entry with the canvas. A block
  texture that is wider than tall and lies wholly inside a 32 by 16 bitmap gets the vertical
  extent 32 on a canvas of height 16, so its rectangle ends at \<open>v1 = 2\<close>.
\<close>

theorem uv_rectangle_outside_unit_square:
  "loadBlockAtlas 32 16 [(''block/wide'', 0, 0, 32, 16)] ''minecraft:block/wide'' =
     Some (0, 0, 1, 2) \<and> \<not> (2 :: rat) \<le> 1"
  by (simp add: loadBlockAtlas_def upperPowerOfTwo_def next_pow2.simps Identifier_create_def
      entry_uv_def dv2_def startsWith_def)

text \<open>An entry of zero width, which the table's type admits, gives a degenerate rectangle.\<close>

lemma uv_rectangle_degenerate:
  "loadBlockAtlas 16 16 [(''item/none'', 0, 0, 0, 0)] ''minecraft:item/none'' = Some (0, 0, 0, 0)"
  by (simp add: loadBlockAtlas_def upperPowerOfTwo_def next_pow2.simps Identifier_create_def
      entry_uv_def dv2_def startsWith_def)

lemma unit_interval_iff:
  fixes a d :: int and n :: nat
  assumes n: "0 < n"
  shows "(0 :: rat) \<le> of_int a / of_nat n \<and>
         (of_int a / of_nat n :: rat) < of_int (a + d) / of_nat n \<and>
         (of_int (a + d) / of_nat n :: rat) \<le> 1 \<longleftrightarrow>
         0 \<le> a \<and> 0 < d \<and> a + d \<le> int n"
proof -
  have pos: "(0 :: rat) < of_nat n"
    using n by simp
  have lo: "(0 :: rat) \<le> of_int a / of_nat n \<longleftrightarrow> 0 \<le> a"
    using pos by (simp add: zero_le_divide_iff)
  have mid: "(of_int a / of_nat n :: rat) < of_int (a + d) / of_nat n \<longleftrightarrow> 0 < d"
    using pos by (simp add: divide_less_cancel)
  have "(of_int (a + d) / of_nat n :: rat) \<le> 1 \<longleftrightarrow> (of_int (a + d) :: rat) \<le> of_int (int n)"
    using pos by (simp add: divide_le_eq_1_pos)
  also have "\<dots> \<longleftrightarrow> a + d \<le> int n"
    by (rule of_int_le_iff)
  finally have hi: "(of_int (a + d) / of_nat n :: rat) \<le> 1 \<longleftrightarrow> a + d \<le> int n" .
  show ?thesis
    unfolding lo mid hi ..
qed

text \<open>
  C2, amended. For every entry \<open>(u, v, du, dv)\<close> of the UV table, the emitted rectangle
  satisfies \<open>0 \<le> u0 < u1 \<le> 1\<close> and \<open>0 \<le> v0 < v1 \<le> 1\<close> exactly when the entry, with its
  effective vertical extent, lies on the canvas with positive extents: \<open>0 \<le> u\<close>, \<open>0 < du\<close>,
  \<open>u + du \<le> W\<close>, \<open>0 \<le> v\<close>, \<open>0 < dv_eff\<close> and \<open>v + dv_eff \<le> H\<close>, where \<open>dv_eff\<close> is \<open>du\<close> for a
  \<open>block/\<close> entry with \<open>du \<noteq> dv\<close> and \<open>dv\<close> otherwise.
\<close>

theorem uv_rectangle_in_unit_square:
  assumes "distinct (map fst textures)"
    and "(rawId, u, v, du, dv) \<in> set textures"
  shows "\<exists>u0 v0 u1 v1.
           loadBlockAtlas image_width image_height textures (Identifier_create rawId) =
             Some (u0, v0, u1, v1) \<and>
           ((0 \<le> u0 \<and> u0 < u1 \<and> u1 \<le> 1 \<and> 0 \<le> v0 \<and> v0 < v1 \<and> v1 \<le> 1) \<longleftrightarrow>
            (0 \<le> u \<and> 0 < du \<and> u + du \<le> int (upperPowerOfTwo image_width) \<and>
             0 \<le> v \<and> 0 < dv2 rawId du dv \<and>
             v + dv2 rawId du dv \<le> int (upperPowerOfTwo image_height)))"
proof -
  define W where "W = upperPowerOfTwo image_width"
  define H where "H = upperPowerOfTwo image_height"
  define dv' where "dv' = dv2 rawId du dv"
  have W: "0 < W" and H: "0 < H"
    by (simp_all add: W_def H_def upperPowerOfTwo_pos)
  have look: "loadBlockAtlas image_width image_height textures (Identifier_create rawId) =
      Some (of_int u / of_nat W, of_int v / of_nat H,
            of_int (u + du) / of_nat W, of_int (v + dv') / of_nat H)"
    using loadBlockAtlas_lookup [OF assms] by (simp add: entry_uv_def W_def H_def dv'_def)
  have "((0 :: rat) \<le> of_int u / of_nat W \<and>
         (of_int u / of_nat W :: rat) < of_int (u + du) / of_nat W \<and>
         (of_int (u + du) / of_nat W :: rat) \<le> 1 \<and>
         (0 :: rat) \<le> of_int v / of_nat H \<and>
         (of_int v / of_nat H :: rat) < of_int (v + dv') / of_nat H \<and>
         (of_int (v + dv') / of_nat H :: rat) \<le> 1) \<longleftrightarrow>
        (0 \<le> u \<and> 0 < du \<and> u + du \<le> int W \<and> 0 \<le> v \<and> 0 < dv' \<and> v + dv' \<le> int H)"
    using unit_interval_iff [OF W, of u du] unit_interval_iff [OF H, of v dv'] by blast
  with look show ?thesis
    unfolding W_def H_def dv'_def by blast
qed

theorem uv_rectangle_in_unit_square_witness:
  "distinct (map fst [(''block/lava_flow'', 0, 32, 16, 64), (''item/apple'', 16, 0, 16, 16 :: int)]) \<and>
   (''block/lava_flow'', 0, 32, 16, 64) \<in>
     set [(''block/lava_flow'', 0, 32, 16, 64), (''item/apple'', 16, 0, 16, 16 :: int)] \<and>
   (\<exists>u0 v0 u1 v1.
      loadBlockAtlas 100 128 [(''block/lava_flow'', 0, 32, 16, 64), (''item/apple'', 16, 0, 16, 16)]
        ''minecraft:block/lava_flow'' = Some (u0, v0, u1, v1) \<and>
      0 \<le> u0 \<and> u0 < u1 \<and> u1 \<le> 1 \<and> 0 \<le> v0 \<and> v0 < v1 \<and> v1 \<le> 1)"
proof -
  have d: "distinct (map fst [(''block/lava_flow'', 0, 32, 16, 64), (''item/apple'', 16, 0, 16, 16 :: int)])"
    by simp
  have m: "(''block/lava_flow'', 0, 32, 16, 64) \<in>
     set [(''block/lava_flow'', 0, 32, 16, 64), (''item/apple'', 16, 0, 16, 16 :: int)]"
    by simp
  have w: "upperPowerOfTwo 100 = 128" "upperPowerOfTwo 128 = 128"
    by (simp_all add: upperPowerOfTwo_def next_pow2.simps)
  have fits: "(0 :: int) \<le> 0 \<and> (0 :: int) < 16 \<and> 0 + 16 \<le> int (upperPowerOfTwo 100) \<and>
      (0 :: int) \<le> 32 \<and> 0 < dv2 ''block/lava_flow'' 16 64 \<and>
      32 + dv2 ''block/lava_flow'' 16 64 \<le> int (upperPowerOfTwo 128)"
    by (simp add: w dv2_def startsWith_def)
  have i: "Identifier_create ''block/lava_flow'' = ''minecraft:block/lava_flow''"
    by (simp add: Identifier_create_def)
  from uv_rectangle_in_unit_square [OF d m, of 100 128] fits
  have "\<exists>u0 v0 u1 v1.
      loadBlockAtlas 100 128 [(''block/lava_flow'', 0, 32, 16, 64), (''item/apple'', 16, 0, 16, 16)]
        (Identifier_create ''block/lava_flow'') = Some (u0, v0, u1, v1) \<and>
      0 \<le> u0 \<and> u0 < u1 \<and> u1 \<le> 1 \<and> 0 \<le> v0 \<and> v0 < v1 \<and> v1 \<le> 1"
    by blast
  with d m show ?thesis
    unfolding i by blast
qed

section \<open>Properties of insertion-ordered sets\<close>

lemma set_set_add: "set (set_add s x) = insert x (set s)"
  by (auto simp: set_add_def)

lemma distinct_set_add: "distinct s \<Longrightarrow> distinct (set_add s x)"
  by (simp add: set_add_def)

lemma set_fold_set_add: "set (fold (\<lambda>x s. set_add s x) xs s) = set s \<union> set xs"
  by (induction xs arbitrary: s) (auto simp: set_set_add)

lemma distinct_fold_set_add: "distinct s \<Longrightarrow> distinct (fold (\<lambda>x s. set_add s x) xs s)"
  by (induction xs arbitrary: s) (auto simp: distinct_set_add)

lemma set_new_Set: "set (new_Set xs) = set xs"
  by (simp add: new_Set_def set_fold_set_add)

lemma distinct_new_Set: "distinct (new_Set xs)"
  by (simp add: new_Set_def distinct_fold_set_add)

section \<open>Properties of the Classification Rule Engine\<close>

lemma join_eq_Nil: "[] \<notin> set xs \<Longrightarrow> join sep xs = [] \<longleftrightarrow> xs = []"
  by (induction sep xs rule: join.induct) auto

lemma filter_nonempty_eq_Nil: "filter (\<lambda>t. t \<noteq> []) ts = [] \<longleftrightarrow> list_all (\<lambda>t. t = []) ts"
  by (induction ts) auto

lemma recurse_Nil: "recurse base [] tokens out = set_add out (combo_id base tokens)"
proof -
  have "join ''_'' (filter (\<lambda>t. t \<noteq> []) tokens) = [] \<longleftrightarrow> list_all (\<lambda>t. t = []) tokens"
    by (subst join_eq_Nil) (auto simp: filter_nonempty_eq_Nil)
  then show ?thesis by (simp add: combo_id_def Let_def)
qed

lemma set_product_lists_Cons:
  "set (product_lists (g # groups)) = (\<Union>p\<in>set g. (#) p ` set (product_lists groups))"
  by auto

lemma set_recurse:
  "set (recurse base groups tokens out) =
     set out \<union> (\<lambda>ts. combo_id base (tokens @ ts)) ` set (product_lists groups)"
proof (induction groups arbitrary: tokens out)
  case Nil
  show ?case by (simp only: recurse_Nil set_set_add) simp
next
  case (Cons g groups)
  have step: "set (fold (\<lambda>p out'. recurse base groups (tokens @ [p]) out') ps out) =
      set out \<union> (\<Union>p\<in>set ps. (\<lambda>ts. combo_id base (tokens @ p # ts)) ` set (product_lists groups))"
    for ps out
    by (induction ps arbitrary: out) (auto simp: Cons.IH)
  show ?case
    unfolding recurse.simps step set_product_lists_Cons by auto
qed

lemma distinct_recurse: "distinct out \<Longrightarrow> distinct (recurse base groups tokens out)"
proof (induction groups arbitrary: tokens out)
  case Nil
  then show ?case by (simp only: recurse_Nil distinct_set_add)
next
  case (Cons g groups)
  have step: "distinct out \<Longrightarrow>
      distinct (fold (\<lambda>p out'. recurse base groups (tokens @ [p]) out') ps out)"
    for ps out
    by (induction ps arbitrary: out) (auto simp: Cons.IH)
  from Cons.prems show ?case
    unfolding recurse.simps by (rule step)
qed

lemma set_PrefixComboRule_fold:
  "set (fold (\<lambda>base out. recurse base groups [] out) bases out) =
     set out \<union> (\<Union>base\<in>set bases. combo_id base ` set (product_lists groups))"
  by (induction bases arbitrary: out) (auto simp: set_recurse)

lemma distinct_PrefixComboRule_fold:
  "distinct out \<Longrightarrow> distinct (fold (\<lambda>base out. recurse base groups [] out) bases out)"
  by (induction bases arbitrary: out) (auto simp: distinct_recurse)

text \<open>
  C5. For every list of bases and every ordered list of token groups, the ids that
  \<open>PrefixComboRule.generate\<close> returns are exactly the ids \<open>combo_id base tokens\<close> for a base
  of the list and a choice \<open>tokens\<close> of one token per group, in group order, and no id is
  returned twice. For \<open>['copper_door']\<close> with the groups \<open>['', 'waxed']\<close> and
  \<open>['', 'exposed', 'weathered', 'oxidized']\<close> the result has exactly 8 distinct ids, among
  them \<open>copper_door\<close>, \<open>waxed_copper_door\<close>, \<open>exposed_copper_door\<close> and
  \<open>waxed_oxidized_copper_door\<close>.
\<close>

theorem PrefixComboRule_cartesian_product:
  "set (PrefixComboRule_generate bases groups) =
     {combo_id base tokens | base tokens.
        base \<in> set bases \<and> list_all2 (\<lambda>t g. t \<in> set g) tokens groups} \<and>
   distinct (PrefixComboRule_generate bases groups) \<and>
   PrefixComboRule_generate [''copper_door'']
       [['''', ''waxed''], ['''', ''exposed'', ''weathered'', ''oxidized'']] =
     [''copper_door'', ''exposed_copper_door'', ''weathered_copper_door'',
      ''oxidized_copper_door'', ''waxed_copper_door'', ''waxed_exposed_copper_door'',
      ''waxed_weathered_copper_door'', ''waxed_oxidized_copper_door''] \<and>
   length (PrefixComboRule_generate [''copper_door'']
       [['''', ''waxed''], ['''', ''exposed'', ''weathered'', ''oxidized'']]) = 8"
    (is "?prod \<and> ?dist \<and> ?ex \<and> ?len")
proof -
  have ?prod
    by (auto simp: PrefixComboRule_generate_def set_PrefixComboRule_fold product_lists_set)
  moreover have ?dist
    by (simp add: PrefixComboRule_generate_def distinct_PrefixComboRule_fold)
  moreover have ex: ?ex
    by (simp add: PrefixComboRule_generate_def set_add_def)
  moreover have ?len
    unfolding ex by simp
  ultimately show ?thesis by blast
qed

theorem PrefixComboRule_cartesian_product_witness:
  "set (PrefixComboRule_generate [''copper_door''] [['''', ''waxed''], ['''', ''oxidized'']]) =
     {''copper_door'', ''oxidized_copper_door'', ''waxed_copper_door'',
      ''waxed_oxidized_copper_door''} \<and>
   combo_id ''copper_door'' ['''', ''''] = ''copper_door'' \<and>
   combo_id ''copper_door'' [''waxed'', ''''] = ''waxed_copper_door'' \<and>
   combo_id ''copper_door'' [''waxed'', ''oxidized''] = ''waxed_oxidized_copper_door''"
proof -
  have "set (PrefixComboRule_generate [''copper_door''] [['''', ''waxed''], ['''', ''oxidized'']]) =
     {combo_id base tokens | base tokens.
        base \<in> set [''copper_door''] \<and>
        list_all2 (\<lambda>t g. t \<in> set g) tokens [['''', ''waxed''], ['''', ''oxidized'']]}"
    using PrefixComboRule_cartesian_product
      [of "[''copper_door'']" "[['''', ''waxed''], ['''', ''oxidized'']]"]
    by blast
  also have "\<dots> = combo_id ''copper_door'' `
      {tokens. list_all2 (\<lambda>t g. t \<in> set g) tokens [['''', ''waxed''], ['''', ''oxidized'']]}"
    by auto
  also have "\<dots> = combo_id ''copper_door'' `
      set (product_lists [['''', ''waxed''], ['''', ''oxidized'']])"
    by (simp only: product_lists_set)
  also have "\<dots> = {''copper_door'', ''oxidized_copper_door'', ''waxed_copper_door'',
      ''waxed_oxidized_copper_door''}"
    by (simp add: combo_id_def insert_commute)
  finally show ?thesis by (simp add: combo_id_def)
qed

lemma set_getHardcodedTwoDItemIds:
  "set getHardcodedTwoDItemIds = (\<Union>rule\<in>set rules. set (generate rule))"
proof -
  have "set (fold (\<lambda>rule out. fold (\<lambda>id' out'. set_add out' id') (generate rule) out) rs out) =
      set out \<union> (\<Union>rule\<in>set rs. set (generate rule))" for rs out
    by (induction rs arbitrary: out) (auto simp: set_fold_set_add)
  then show ?thesis by (simp add: getHardcodedTwoDItemIds_def)
qed

text \<open>
  C3. The classification set built in \<open>main\<close> has exactly the elements of the detected set
  and of the statically declared set, the latter being the union of the outputs of the
  configured rules; every detected id is in it; and the size chosen for an id is 16 when
  the id is in the set and 128 otherwise.
\<close>

theorem classification_set_is_union:
  "set (twoDItemIds detected) = set detected \<union> set getHardcodedTwoDItemIds \<and>
   set detected \<subseteq> set (twoDItemIds detected) \<and>
   set getHardcodedTwoDItemIds = (\<Union>rule\<in>set rules. set (generate rule)) \<and>
   render_size (twoDItemIds detected) id' =
     (if id' \<in> set detected \<union> set getHardcodedTwoDItemIds then 16 else 128)"
  by (simp add: twoDItemIds_def set_new_Set render_size_def has_def RENDER_SIZE_def
      set_getHardcodedTwoDItemIds)

theorem classification_set_is_union_witness:
  "render_size (twoDItemIds [''apple'']) ''apple'' = 16 \<and>
   render_size (twoDItemIds [''apple'']) ''torch'' = 16 \<and>
   render_size (twoDItemIds [''apple'']) ''stone'' = 128"
proof -
  have t: "''torch'' \<in> set getHardcodedTwoDItemIds"
    by (simp add: set_getHardcodedTwoDItemIds rules_def ListRule_generate_def SINGLE_IDS_def)
  have p: "set (generate (PrefixComboRule COPPER_BASES [WAX_STATES, OXIDATION_STATES])) =
      (\<Union>base\<in>set COPPER_BASES. combo_id base ` set (product_lists [WAX_STATES, OXIDATION_STATES]))"
    by (simp only: generate.simps PrefixComboRule_generate_def set_PrefixComboRule_fold) simp
  have "''stone'' \<notin> set (generate (PrefixComboRule COPPER_BASES [WAX_STATES, OXIDATION_STATES]))"
    unfolding p
    by (simp add: combo_id_def COPPER_BASES_def WAX_STATES_def OXIDATION_STATES_def)
  moreover have "''stone'' \<notin> set (generate (SuffixRule COLORS ''stained_glass_pane''))"
    by (simp add: SuffixRule_generate_def COLORS_def)
  moreover have "''stone'' \<notin> set (generate (SuffixRule SAPLING_TYPES ''sapling''))"
    by (simp add: SuffixRule_generate_def SAPLING_TYPES_def)
  moreover have "''stone'' \<notin> set (generate (CoralRule CORAL_TYPES))"
    by (simp add: CoralRule_generate_def CORAL_TYPES_def)
  moreover have "''stone'' \<notin> set (generate (ListRule SINGLE_IDS))"
    by (simp add: ListRule_generate_def SINGLE_IDS_def)
  ultimately have "''stone'' \<notin> set (generate rule)" if "rule \<in> set rules" for rule
    using that unfolding rules_def by auto
  then have s: "''stone'' \<notin> set getHardcodedTwoDItemIds"
    by (auto simp: set_getHardcodedTwoDItemIds)
  show ?thesis
    using t s classification_set_is_union [of "[''apple'']" "''apple''"]
      classification_set_is_union [of "[''apple'']" "''torch''"]
      classification_set_is_union [of "[''apple'']" "''stone''"]
    by simp
qed

section \<open>Properties of the detection pass\<close>

lemma startsWith_slice_iff:
  "startsWith tex p \<and> slice tex (length p) = id' \<longleftrightarrow> tex = p @ id'"
  unfolding startsWith_def slice_def
  by (metis append_eq_conv_conj)

lemma set_fetchTwoDItemIds_fold:
  "set (fold (\<lambda>tex twoD.
             if startsWith tex ''item/''
             then (let id' = slice tex (length ''item/'')
                   in if id' \<noteq> [] then set_add twoD id' else twoD)
             else twoD) textures twoD) =
     set twoD \<union> {id'. id' \<noteq> [] \<and> ''item/'' @ id' \<in> set textures}"
proof (induction textures arbitrary: twoD)
  case Nil
  show ?case by simp
next
  case (Cons tex textures)
  have *: "startsWith tex ''item/'' \<and> slice tex (length ''item/'') = id' \<longleftrightarrow> tex = ''item/'' @ id'"
    for id'
    by (rule startsWith_slice_iff)
  show ?case
  proof (cases "startsWith tex ''item/''")
    case True
    then have tex: "tex = ''item/'' @ slice tex (length ''item/'')"
      using * by blast
    show ?thesis
    proof (cases "slice tex (length ''item/'') = []")
      case True
      have "set (fold (\<lambda>tex twoD.
             if startsWith tex ''item/''
             then (let id' = slice tex (length ''item/'')
                   in if id' \<noteq> [] then set_add twoD id' else twoD)
             else twoD) (tex # textures) twoD) =
        set twoD \<union> {id'. id' \<noteq> [] \<and> ''item/'' @ id' \<in> set textures}"
        using True \<open>startsWith tex ''item/''\<close> by (simp add: Cons.IH)
      also have "\<dots> = set twoD \<union> {id'. id' \<noteq> [] \<and> ''item/'' @ id' \<in> set (tex # textures)}"
        using tex True by auto
      finally show ?thesis .
    next
      case False
      have "set (fold (\<lambda>tex twoD.
             if startsWith tex ''item/''
             then (let id' = slice tex (length ''item/'')
                   in if id' \<noteq> [] then set_add twoD id' else twoD)
             else twoD) (tex # textures) twoD) =
        insert (slice tex (length ''item/'')) (set twoD) \<union>
          {id'. id' \<noteq> [] \<and> ''item/'' @ id' \<in> set textures}"
        using False \<open>startsWith tex ''item/''\<close> by (simp add: Cons.IH set_set_add)
      also have "\<dots> = set twoD \<union> {id'. id' \<noteq> [] \<and> ''item/'' @ id' \<in> set (tex # textures)}"
        using tex False by auto
      finally show ?thesis .
    qed
  next
    case False
    then have "tex \<noteq> ''item/'' @ id'" for id'
      using * by blast
    then have "{id'. id' \<noteq> [] \<and> ''item/'' @ id' \<in> set (tex # textures)} =
        {id'. id' \<noteq> [] \<and> ''item/'' @ id' \<in> set textures}"
      by auto
    then show ?thesis using False by (simp add: Cons.IH)
  qed
qed

lemma distinct_fetchTwoDItemIds: "distinct (fetchTwoDItemIds textures)"
proof -
  have "distinct twoD \<Longrightarrow> distinct (fold (\<lambda>tex twoD.
             if startsWith tex ''item/''
             then (let id' = slice tex (length ''item/'')
                   in if id' \<noteq> [] then set_add twoD id' else twoD)
             else twoD) textures twoD)" for twoD
    by (induction textures arbitrary: twoD) (auto simp: distinct_set_add Let_def)
  then show ?thesis by (simp add: fetchTwoDItemIds_def)
qed

text \<open>
  C4 as stated fails on nested paths: the pass tests only that the path starts with
  \<open>item/\<close>, so \<open>item/foo/bar\<close>, which is not directly under the prefix, is detected, as the
  id \<open>foo/bar\<close>.
\<close>

theorem nested_texture_path_detected:
  "fetchTwoDItemIds [''item/foo/bar''] = [''foo/bar'']"
  by (simp add: fetchTwoDItemIds_def startsWith_def slice_def set_add_def)

text \<open>
  C4, amended. The detection pass produces exactly the set of non-empty ids \<open>id\<close> such that
  \<open>item/\<close> followed by \<open>id\<close> is a registered texture path, whether or not \<open>id\<close> contains a
  further \<open>/\<close>; each id occurs once; and texture paths that do not start with \<open>item/\<close>
  contribute nothing.
\<close>

theorem detection_pass_ids:
  "set (fetchTwoDItemIds textures) = {id'. id' \<noteq> [] \<and> ''item/'' @ id' \<in> set textures} \<and>
   distinct (fetchTwoDItemIds textures) \<and>
   fetchTwoDItemIds (filter (\<lambda>tex. startsWith tex ''item/'') textures) = fetchTwoDItemIds textures"
    (is "?ids \<and> ?dist \<and> ?rest")
proof -
  have ?ids
    by (simp add: fetchTwoDItemIds_def set_fetchTwoDItemIds_fold)
  moreover have ?dist
    by (rule distinct_fetchTwoDItemIds)
  moreover have ?rest
  proof -
    have "fold (\<lambda>tex twoD.
             if startsWith tex ''item/''
             then (let id' = slice tex (length ''item/'')
                   in if id' \<noteq> [] then set_add twoD id' else twoD)
             else twoD) (filter (\<lambda>tex. startsWith tex ''item/'') textures) twoD =
          fold (\<lambda>tex twoD.
             if startsWith tex ''item/''
             then (let id' = slice tex (length ''item/'')
                   in if id' \<noteq> [] then set_add twoD id' else twoD)
             else twoD) textures twoD" for twoD
      by (induction textures arbitrary: twoD) auto
    then show ?thesis by (simp add: fetchTwoDItemIds_def)
  qed
  ultimately show ?thesis by blast
qed

theorem detection_pass_ids_witness:
  "set (fetchTwoDItemIds [''item/apple'', ''block/stone'', ''item/'', ''entity/item/x'']) =
     {''apple''}"
proof -
  have "set (fetchTwoDItemIds [''item/apple'', ''block/stone'', ''item/'', ''entity/item/x'']) =
      {id'. id' \<noteq> [] \<and>
         ''item/'' @ id' \<in> set [''item/apple'', ''block/stone'', ''item/'', ''entity/item/x'']}"
    using detection_pass_ids [of "[''item/apple'', ''block/stone'', ''item/'', ''entity/item/x'']"]
    by blast
  also have "\<dots> = {''apple''}"
    by auto
  finally show ?thesis .
qed

section \<open>Properties of the Item Component Tree Converter\<close>

lemma map_set_fresh: "k \<notin> fst ` set m \<Longrightarrow> map_set m k v = m @ [(k, v)]"
  by (induction m) auto

lemma fold_map_set_distinct:
  "distinct (map fst (m @ entries)) \<Longrightarrow>
   fold (\<lambda>(k, v) m. map_set m k v) entries m = m @ entries"
proof (induction entries arbitrary: m)
  case Nil
  show ?case by simp
next
  case (Cons e entries)
  obtain k v where e: "e = (k, v)" by (cases e)
  from Cons.prems have fresh: "k \<notin> fst ` set m"
    by (auto simp: e)
  from Cons.prems have "distinct (map fst ((m @ [(k, v)]) @ entries))"
    by (simp add: e)
  then have "fold (\<lambda>(k, v) m. map_set m k v) entries (m @ [(k, v)]) = (m @ [(k, v)]) @ entries"
    by (rule Cons.IH)
  then show ?case
    by (simp add: e map_set_fresh [OF fresh])
qed

lemma new_Map_distinct: "distinct (map fst entries) \<Longrightarrow> new_Map entries = entries"
  using fold_map_set_distinct [of "[]" entries] by (simp add: new_Map_def)

lemma set_Object_entries: "set (Object_entries props) = set props"
  by (auto simp: Object_entries_def)

lemma distinct_Object_entries:
  assumes "distinct (map fst props)"
  shows "distinct (map fst (Object_entries props))"
proof -
  from assms have d: "distinct props"
    by (rule distinct_map [THEN iffD1, THEN conjunct1])
  from assms have i: "inj_on fst (set props)"
    by (simp add: distinct_map)
  have "distinct (Object_entries props)"
    using d by (auto simp: Object_entries_def)
  moreover have "inj_on fst (set (Object_entries props))"
    using i by (simp only: set_Object_entries)
  ultimately show ?thesis
    by (simp add: distinct_map)
qed

lemma Object_entries_no_index:
  "\<forall>k\<in>fst ` set props. array_index k = None \<Longrightarrow> Object_entries props = props"
proof -
  assume a: "\<forall>k\<in>fst ` set props. array_index k = None"
  then have "filter (\<lambda>(k, v). array_index k \<noteq> None) props = []"
    by (auto simp: filter_empty_conv)
  moreover from a have "filter (\<lambda>(k, v). array_index k = None) props = props"
    by (auto simp: filter_id_conv)
  ultimately show ?thesis
    by (simp add: Object_entries_def)
qed

lemma collect_all_Inr:
  "\<forall>x\<in>set xs. \<exists>t. f x = Inr t \<Longrightarrow> collect (map f xs) = Inr (map (\<lambda>x. projr (f x)) xs)"
  by (induction xs) auto

lemma depth_pos: "0 < depth v"
  by (cases v) simp_all

lemma le_foldr_max: "y \<in> set ys \<Longrightarrow> y \<le> foldr max ys (0 :: nat)"
  by (induction ys) auto

lemma depth_element: "x \<in> set xs \<Longrightarrow> depth (JArray xs) \<le> Suc stack \<Longrightarrow> depth x \<le> stack"
  using le_foldr_max [of "depth x" "map depth xs"] by simp

lemma depth_property:
  "(k, x) \<in> set props \<Longrightarrow> depth (JObject props) \<le> Suc stack \<Longrightarrow> depth x \<le> stack"
  using le_foldr_max [of "depth x" "map snd (map (map_prod (\<lambda>k. k) depth) props)"]
  by (force simp: image_iff)

lemma jsonToNbt_returns: "depth v \<le> stack \<Longrightarrow> \<exists>t. jsonToNbt stack v = Inr t"
proof (induction stack arbitrary: v)
  case 0
  with depth_pos [of v] show ?case by simp
next
  case (Suc stack)
  show ?case
  proof (cases v)
    case (JArray xs)
    have "\<forall>x\<in>set xs. \<exists>t. jsonToNbt stack x = Inr t"
    proof
      fix x
      assume "x \<in> set xs"
      then have "depth x \<le> stack"
        using Suc.prems unfolding JArray by (rule depth_element)
      then show "\<exists>t. jsonToNbt stack x = Inr t"
        by (rule Suc.IH)
    qed
    then show ?thesis
      using JArray by (simp add: collect_all_Inr)
  next
    case (JObject props)
    have "\<exists>t. jsonToNbt stack x = Inr t" if "(k, x) \<in> set props" for k x
    proof -
      from that have "depth x \<le> stack"
        using Suc.prems unfolding JObject by (rule depth_property)
      then show ?thesis
        by (rule Suc.IH)
    qed
    then have "\<forall>p\<in>set (Object_entries props). \<exists>t.
        (case p of (k, x) \<Rightarrow> case jsonToNbt stack x of Inl e \<Rightarrow> Inl e | Inr t \<Rightarrow> Inr (k, t)) = Inr t"
      by (force simp: set_Object_entries)
    then show ?thesis
      using JObject by (simp add: collect_all_Inr)
  qed simp_all
qed

lemma jsonToNbt_stack_independent:
  "depth v \<le> stack \<Longrightarrow> depth v \<le> stack' \<Longrightarrow> jsonToNbt stack v = jsonToNbt stack' v"
proof (induction stack arbitrary: v stack')
  case 0
  with depth_pos [of v] show ?case by simp
next
  case (Suc stack)
  from Suc.prems(2) depth_pos [of v] obtain s' where s': "stack' = Suc s'"
    by (cases stack') auto
  show ?case
  proof (cases v)
    case (JArray xs)
    have "jsonToNbt stack x = jsonToNbt s' x" if "x \<in> set xs" for x
    proof -
      from that have "depth x \<le> stack"
        using Suc.prems(1) unfolding JArray by (rule depth_element)
      moreover from that have "depth x \<le> s'"
        using Suc.prems(2) unfolding JArray s' by (rule depth_element)
      ultimately show ?thesis
        by (rule Suc.IH)
    qed
    then have m: "map (jsonToNbt stack) xs = map (jsonToNbt s') xs"
      by (intro map_cong refl)
    show ?thesis
      unfolding JArray s' by (simp only: jsonToNbt.simps m)
  next
    case (JObject props)
    have "jsonToNbt stack x = jsonToNbt s' x" if "(k, x) \<in> set props" for k x
    proof -
      from that have "depth x \<le> stack"
        using Suc.prems(1) unfolding JObject by (rule depth_property)
      moreover from that have "depth x \<le> s'"
        using Suc.prems(2) unfolding JObject s' by (rule depth_property)
      ultimately show ?thesis
        by (rule Suc.IH)
    qed
    then have m: "map (\<lambda>(k, x). case jsonToNbt stack x of Inl e \<Rightarrow> Inl e | Inr t \<Rightarrow> Inr (k, t))
          (Object_entries props) =
        map (\<lambda>(k, x). case jsonToNbt s' x of Inl e \<Rightarrow> Inl e | Inr t \<Rightarrow> Inr (k, t))
          (Object_entries props)"
      by (intro map_cong refl) (auto simp: set_Object_entries)
    show ?thesis
      unfolding JObject s' by (simp only: jsonToNbt.simps m)
  qed (simp_all add: s')
qed

lemma jsonToNbt_overflow: "jsonToNbt n (nested_arrays n) = Inl RangeError"
  by (induction n) simp_all

lemma depth_nested_arrays: "depth (nested_arrays n) = Suc n"
  by (induction n) simp_all

lemma Inr_projr_returns:
  assumes "\<exists>t. r = Inr t"
  shows "Inr (projr r) = r"
  using assms by auto

lemma zip_keys_values:
  "zip (map fst E) (map (\<lambda>(k, x). g x) E) = map (\<lambda>(k, x). (k, g x)) E"
  by (induction E) auto

lemma jsonToNbt_array:
  assumes "depth (JArray xs) \<le> stack"
  shows "\<exists>tags. jsonToNbt stack (JArray xs) = Inr (NbtList tags) \<and>
           map Inr tags = map (jsonToNbt stack) xs"
proof -
  from assms obtain s where s: "stack = Suc s"
    by (cases stack) auto
  have elem: "depth x \<le> s" if "x \<in> set xs" for x
    using that assms unfolding s by (rule depth_element)
  have ret: "\<forall>x\<in>set xs. \<exists>t. jsonToNbt s x = Inr t"
    using elem by (auto intro: jsonToNbt_returns)
  define tags where "tags = map (\<lambda>x. projr (jsonToNbt s x)) xs"
  have "collect (map (\<lambda>x. jsonToNbt s x) xs) = Inr tags"
    unfolding tags_def using ret by (rule collect_all_Inr)
  then have res: "jsonToNbt stack (JArray xs) = Inr (NbtList tags)"
    by (simp add: s)
  have "Inr (projr (jsonToNbt s x)) = jsonToNbt stack x" if "x \<in> set xs" for x
  proof -
    from that ret have "Inr (projr (jsonToNbt s x)) = jsonToNbt s x"
      by (intro Inr_projr_returns) blast
    also have "\<dots> = jsonToNbt stack x"
      using elem [OF that] unfolding s by (intro jsonToNbt_stack_independent) simp_all
    finally show ?thesis .
  qed
  then have "map Inr tags = map (jsonToNbt stack) xs"
    by (simp add: tags_def)
  with res show ?thesis by blast
qed

lemma jsonToNbt_object:
  assumes "depth (JObject props) \<le> stack"
    and "distinct (map fst props)"
  shows "\<exists>tags. jsonToNbt stack (JObject props) =
             Inr (NbtCompound (zip (map fst (Object_entries props)) tags)) \<and>
           map Inr tags = map (\<lambda>(k, x). jsonToNbt stack x) (Object_entries props)"
proof -
  from assms(1) obtain s where s: "stack = Suc s"
    by (cases stack) auto
  have elem: "depth x \<le> s" if "(k, x) \<in> set (Object_entries props)" for k x
  proof -
    from that have "(k, x) \<in> set props"
      by (simp only: set_Object_entries)
    then show ?thesis
      using assms(1) unfolding s by (rule depth_property)
  qed
  have ret: "\<exists>t. jsonToNbt s x = Inr t" if "(k, x) \<in> set (Object_entries props)" for k x
    using elem [OF that] by (rule jsonToNbt_returns)
  define tags where "tags = map (\<lambda>(k, x). projr (jsonToNbt s x)) (Object_entries props)"
  define entries where "entries = map (\<lambda>(k, x). (k, projr (jsonToNbt s x))) (Object_entries props)"
  have "\<forall>p\<in>set (Object_entries props). \<exists>t.
      (case p of (k, x) \<Rightarrow> case jsonToNbt s x of Inl e \<Rightarrow> Inl e | Inr t \<Rightarrow> Inr (k, t)) = Inr t"
    using ret by force
  then have "collect (map (\<lambda>(k, x). case jsonToNbt s x of Inl e \<Rightarrow> Inl e | Inr t \<Rightarrow> Inr (k, t))
        (Object_entries props)) =
      Inr (map (\<lambda>p. projr (case p of (k, x) \<Rightarrow>
        case jsonToNbt s x of Inl e \<Rightarrow> Inl e | Inr t \<Rightarrow> Inr (k, t))) (Object_entries props))"
    by (rule collect_all_Inr)
  also have "map (\<lambda>p. projr (case p of (k, x) \<Rightarrow>
        case jsonToNbt s x of Inl e \<Rightarrow> Inl e | Inr t \<Rightarrow> Inr (k, t))) (Object_entries props) = entries"
    unfolding entries_def using ret by (intro map_cong refl) force
  finally have col: "collect (map (\<lambda>(k, x). case jsonToNbt s x of Inl e \<Rightarrow> Inl e | Inr t \<Rightarrow> Inr (k, t))
        (Object_entries props)) = Inr entries" .
  have "map fst entries = map fst (Object_entries props)"
    by (auto simp: entries_def)
  then have "distinct (map fst entries)"
    using distinct_Object_entries [OF assms(2)] by simp
  then have "new_Map entries = entries"
    by (rule new_Map_distinct)
  moreover have "entries = zip (map fst (Object_entries props)) tags"
    by (simp only: entries_def tags_def zip_keys_values)
  ultimately have res: "jsonToNbt stack (JObject props) =
      Inr (NbtCompound (zip (map fst (Object_entries props)) tags))"
    using col by (simp add: s)
  have "Inr (projr (jsonToNbt s x)) = jsonToNbt stack x"
    if "(k, x) \<in> set (Object_entries props)" for k x
  proof -
    from ret [OF that] have "Inr (projr (jsonToNbt s x)) = jsonToNbt s x"
      by (rule Inr_projr_returns)
    also have "\<dots> = jsonToNbt stack x"
      using elem [OF that] unfolding s by (intro jsonToNbt_stack_independent) simp_all
    finally show ?thesis .
  qed
  then have "map Inr tags = map (\<lambda>(k, x). jsonToNbt stack x) (Object_entries props)"
    by (auto simp: tags_def)
  with res show ?thesis by blast
qed

lemma Object_entries_shape:
  "\<exists>ixs. Object_entries props = ixs @ filter (\<lambda>(k, x). array_index k = None) props \<and>
     set ixs = {p \<in> set props. array_index (fst p) \<noteq> None} \<and>
     sorted (map (\<lambda>(k, x). the (array_index k)) ixs)"
proof -
  have "set (sort_key (\<lambda>(k, v). the (array_index k))
        (filter (\<lambda>(k, v). array_index k \<noteq> None) props)) =
      {p \<in> set props. array_index (fst p) \<noteq> None}"
    by auto
  moreover have "sorted (map (\<lambda>(k, x). the (array_index k))
      (sort_key (\<lambda>(k, v). the (array_index k))
        (filter (\<lambda>(k, v). array_index k \<noteq> None) props)))"
    by (rule sorted_sort_key)
  ultimately show ?thesis
    unfolding Object_entries_def by blast
qed

lemma jsonToNbt_example:
  "jsonToNbt 2 (JObject [(''max_stack_size'', JNumber (Num 64)), (''rarity'', JString ''common''),
       (''unbreakable'', JObject [])]) =
     Inr (NbtCompound [(''max_stack_size'', NbtInt 64), (''rarity'', NbtString ''common''),
       (''unbreakable'', NbtCompound [])])"
  by (simp add: numeral_2_eq_2 Object_entries_def array_index_def digit_value_def
      Number_isInteger_def new_Map_def)

text \<open>
  C6 as stated fails in two places. The properties of an object are converted in the order
  of \<open>Object.entries\<close>, which puts integer-like keys first, in ascending order: the object
  \<open>{"b": 1, "2": 2, "1": 3}\<close> becomes a mapping with the keys \<open>1\<close>, \<open>2\<close>, \<open>b\<close>, not in
  insertion order. And the conversion is not total: the function calls itself for every
  level of nesting, so a value nested more deeply than the call stack allows raises a
  \<open>RangeError\<close>; with room for 3 activations, four nested arrays raise it, and lemma
  \<open>jsonToNbt_overflow\<close> gives such a value for every size of the stack.
\<close>

theorem jsonToNbt_reorders_and_overflows:
  "jsonToNbt 2 (JObject [(''b'', JNumber (Num 1)), (''2'', JNumber (Num 2)), (''1'', JNumber (Num 3))]) =
     Inr (NbtCompound [(''1'', NbtInt 3), (''2'', NbtInt 2), (''b'', NbtInt 1)]) \<and>
   jsonToNbt 3 (JArray [JArray [JArray [JArray []]]]) = Inl RangeError"
proof -
  have "jsonToNbt 2 (JObject [(''b'', JNumber (Num 1)), (''2'', JNumber (Num 2)), (''1'', JNumber (Num 3))]) =
     Inr (NbtCompound [(''1'', NbtInt 3), (''2'', NbtInt 2), (''b'', NbtInt 1)])"
    by (simp add: numeral_2_eq_2 Object_entries_def array_index_def digit_value_def
        Number_isInteger_def new_Map_def)
  moreover have "jsonToNbt 3 (JArray [JArray [JArray [JArray []]]]) = Inl RangeError"
    by (simp add: numeral_3_eq_3)
  ultimately show ?thesis ..
qed

text \<open>
  C6, amended. For every raw value whose nesting depth is at most the number of
  activations the call stack has room for, \<open>jsonToNbt\<close> returns without an exception, and
  it returns: a string tag for a string; an integer tag for an integral number; a double
  tag for a number that is not integral; a byte tag 1 or 0 for a boolean; the list of the
  converted elements, in order, for an array; for an object the mapping of the converted
  values in the order of \<open>Object.entries\<close>, that is the integer-like keys first in
  ascending numeric order and then the other keys in insertion order, which is insertion
  order throughout when no key is integer-like; and the byte tag 0 for \<open>null\<close>,
  \<open>undefined\<close> and any other value. The object
  \<open>{"max_stack_size": 64, "rarity": "common", "unbreakable": {}}\<close> becomes a mapping with
  the integer tag 64, the string tag \<open>common\<close> and an empty mapping, in that order.
\<close>

theorem jsonToNbt_cases:
  "(depth v \<le> stack \<longrightarrow> (\<exists>t. jsonToNbt stack v = Inr t)) \<and>
   (0 < stack \<longrightarrow> jsonToNbt stack (JString s) = Inr (NbtString s)) \<and>
   (0 < stack \<and> Number_isInteger n \<longrightarrow>
      (\<exists>i. n = Num (of_int i) \<and> jsonToNbt stack (JNumber n) = Inr (NbtInt i))) \<and>
   (0 < stack \<and> \<not> Number_isInteger m \<longrightarrow> jsonToNbt stack (JNumber m) = Inr (NbtDouble m)) \<and>
   (0 < stack \<longrightarrow> jsonToNbt stack (JBoolean b) = Inr (NbtByte (if b then 1 else 0))) \<and>
   (depth (JArray xs) \<le> stack \<longrightarrow>
      (\<exists>tags. jsonToNbt stack (JArray xs) = Inr (NbtList tags) \<and>
         map Inr tags = map (jsonToNbt stack) xs)) \<and>
   (depth (JObject props) \<le> stack \<and> distinct (map fst props) \<longrightarrow>
      (\<exists>tags. jsonToNbt stack (JObject props) =
           Inr (NbtCompound (zip (map fst (Object_entries props)) tags)) \<and>
         map Inr tags = map (\<lambda>(k, x). jsonToNbt stack x) (Object_entries props))) \<and>
   (\<exists>ixs. Object_entries props = ixs @ filter (\<lambda>(k, x). array_index k = None) props \<and>
      set ixs = {p \<in> set props. array_index (fst p) \<noteq> None} \<and>
      sorted (map (\<lambda>(k, x). the (array_index k)) ixs)) \<and>
   ((\<forall>k\<in>fst ` set props. array_index k = None) \<longrightarrow> Object_entries props = props) \<and>
   (0 < stack \<longrightarrow>
      jsonToNbt stack JNull = Inr (NbtByte 0) \<and> jsonToNbt stack JUndefined = Inr (NbtByte 0) \<and>
      jsonToNbt stack JOther = Inr (NbtByte 0)) \<and>
   (2 \<le> stack \<longrightarrow>
      jsonToNbt stack (JObject [(''max_stack_size'', JNumber (Num 64)),
          (''rarity'', JString ''common''), (''unbreakable'', JObject [])]) =
        Inr (NbtCompound [(''max_stack_size'', NbtInt 64), (''rarity'', NbtString ''common''),
          (''unbreakable'', NbtCompound [])]))"
    (is "?total \<and> ?str \<and> ?int \<and> ?dbl \<and> ?bool \<and> ?arr \<and> ?obj \<and> ?shape \<and> ?plain \<and> ?rest \<and> ?ex")
proof -
  have leaf: "0 < stack \<Longrightarrow> \<exists>s. stack = Suc s"
    by (cases stack) auto
  have ?total
    by (simp add: jsonToNbt_returns)
  moreover have ?str
    using leaf by auto
  moreover have ?int
  proof (intro impI, elim conjE)
    assume pos: "0 < stack" and "Number_isInteger n"
    then obtain q where n: "n = Num q" and q: "of_int \<lfloor>q\<rfloor> = q"
      by (auto simp: Number_isInteger_def simp del: of_int_floor_cancel split: number.splits)
    have "Number_isInteger (Num q)"
      using q by (simp add: Number_isInteger_def del: of_int_floor_cancel)
    then have "jsonToNbt stack (JNumber (Num q)) = Inr (NbtInt \<lfloor>q\<rfloor>)"
      using leaf [OF pos] by auto
    then have "n = Num (of_int \<lfloor>q\<rfloor>) \<and> jsonToNbt stack (JNumber n) = Inr (NbtInt \<lfloor>q\<rfloor>)"
      unfolding n q by simp
    then show "\<exists>i. n = Num (of_int i) \<and> jsonToNbt stack (JNumber n) = Inr (NbtInt i)" ..
  qed
  moreover have ?dbl
    using leaf by auto
  moreover have ?bool
    using leaf by (auto simp: NbtByte_of_boolean_def)
  moreover have ?arr
    by (simp add: jsonToNbt_array)
  moreover have ?obj
    by (simp add: jsonToNbt_object)
  moreover have ?shape
    by (rule Object_entries_shape)
  moreover have ?plain
    by (simp add: Object_entries_no_index)
  moreover have ?rest
    using leaf by auto
  moreover have ?ex
  proof
    assume "2 \<le> stack"
    moreover have "depth (JObject [(''max_stack_size'', JNumber (Num 64)),
        (''rarity'', JString ''common''), (''unbreakable'', JObject [])]) = 2"
      by simp
    ultimately have "jsonToNbt stack (JObject [(''max_stack_size'', JNumber (Num 64)),
          (''rarity'', JString ''common''), (''unbreakable'', JObject [])]) =
        jsonToNbt 2 (JObject [(''max_stack_size'', JNumber (Num 64)),
          (''rarity'', JString ''common''), (''unbreakable'', JObject [])])"
      by (intro jsonToNbt_stack_independent) simp_all
    then show "jsonToNbt stack (JObject [(''max_stack_size'', JNumber (Num 64)),
          (''rarity'', JString ''common''), (''unbreakable'', JObject [])]) =
        Inr (NbtCompound [(''max_stack_size'', NbtInt 64), (''rarity'', NbtString ''common''),
          (''unbreakable'', NbtCompound [])])"
      by (simp only: jsonToNbt_example)
  qed
  ultimately show ?thesis by - (intro conjI; assumption)
qed

theorem jsonToNbt_cases_witness:
  "depth (JObject [(''damage'', JNumber (Num (1 / 2))), (''lore'', JArray [JBoolean True, JNull])]) \<le> 3 \<and>
   (0 :: nat) < 3 \<and> (2 :: nat) \<le> 3 \<and>
   Number_isInteger (Num 64) \<and> \<not> Number_isInteger (Num (1 / 2)) \<and>
   depth (JArray [JBoolean True, JNull]) \<le> 3 \<and>
   distinct (map fst [(''damage'', JNumber (Num (1 / 2))), (''lore'', JArray [JBoolean True, JNull])]) \<and>
   array_index ''damage'' = None \<and> array_index ''lore'' = None \<and>
   jsonToNbt 3 (JNumber (Num 64)) = Inr (NbtInt 64) \<and>
   jsonToNbt 3 (JNumber (Num (1 / 2))) = Inr (NbtDouble (Num (1 / 2))) \<and>
   jsonToNbt 3 (JArray [JBoolean True, JNull]) = Inr (NbtList [NbtByte 1, NbtByte 0]) \<and>
   jsonToNbt 3 (JObject [(''damage'', JNumber (Num (1 / 2))), (''lore'', JArray [JBoolean True, JNull])]) =
     Inr (NbtCompound [(''damage'', NbtDouble (Num (1 / 2))), (''lore'', NbtList [NbtByte 1, NbtByte 0])])"
proof -
  note inst = jsonToNbt_cases [where stack = 3 and n = "Num 64" and m = "Num (1 / 2)"
      and xs = "[JBoolean True, JNull]"
      and props = "[(''damage'', JNumber (Num (1 / 2))), (''lore'', JArray [JBoolean True, JNull])]"
      and v = "JObject [(''damage'', JNumber (Num (1 / 2))), (''lore'', JArray [JBoolean True, JNull])]"]
  note int_case = inst [THEN conjunct2, THEN conjunct2, THEN conjunct1]
  note dbl_case = inst [THEN conjunct2, THEN conjunct2, THEN conjunct2, THEN conjunct1]
  note bool_case = jsonToNbt_cases [where stack = 3 and b = True, THEN conjunct2, THEN conjunct2, THEN conjunct2, THEN conjunct2, THEN conjunct1]
  note arr_case = inst [THEN conjunct2, THEN conjunct2, THEN conjunct2, THEN conjunct2, THEN conjunct2, THEN conjunct1]
  note obj_case = inst [THEN conjunct2, THEN conjunct2, THEN conjunct2, THEN conjunct2, THEN conjunct2, THEN conjunct2, THEN conjunct1]
  note plain_case = inst [THEN conjunct2, THEN conjunct2, THEN conjunct2, THEN conjunct2, THEN conjunct2, THEN conjunct2, THEN conjunct2, THEN conjunct2, THEN conjunct1]
  note rest_case = inst [THEN conjunct2, THEN conjunct2, THEN conjunct2, THEN conjunct2, THEN conjunct2, THEN conjunct2, THEN conjunct2, THEN conjunct2, THEN conjunct2, THEN conjunct1]
  have dv: "depth (JObject [(''damage'', JNumber (Num (1 / 2))), (''lore'', JArray [JBoolean True, JNull])]) \<le> 3"
    by simp
  have da: "depth (JArray [JBoolean True, JNull]) \<le> 3"
    by simp
  have i: "Number_isInteger (Num 64)"
    by (simp add: Number_isInteger_def)
  have h: "\<not> Number_isInteger (Num (1 / 2))"
  proof -
    have "\<lfloor>1 / 2 :: rat\<rfloor> = 0"
      by (rule floor_unique) simp_all
    then have "of_int \<lfloor>1 / 2 :: rat\<rfloor> \<noteq> (1 / 2 :: rat)"
      by simp
    then show ?thesis
      by (simp add: Number_isInteger_def del: of_int_floor_cancel)
  qed
  have d: "distinct (map fst [(''damage'', JNumber (Num (1 / 2))), (''lore'', JArray [JBoolean True, JNull])])"
    by simp
  have k: "array_index ''damage'' = None \<and> array_index ''lore'' = None"
    by (simp add: array_index_def digit_value_def)
  have pos: "(0 :: nat) < 3" and two: "(2 :: nat) \<le> 3"
    by simp_all
  from pos i int_case obtain j
    where "Num 64 = Num (of_int j)" and j: "jsonToNbt 3 (JNumber (Num 64)) = Inr (NbtInt j)"
    by blast
  then have "(of_int j :: rat) = of_int 64" by simp
  then have "j = 64" unfolding of_int_eq_iff .
  with j have a: "jsonToNbt 3 (JNumber (Num 64)) = Inr (NbtInt 64)" by simp
  have b: "jsonToNbt 3 (JNumber (Num (1 / 2))) = Inr (NbtDouble (Num (1 / 2)))"
    using pos h dbl_case by blast
  have tn: "jsonToNbt 3 (JBoolean True) = Inr (NbtByte 1)" "jsonToNbt 3 JNull = Inr (NbtByte 0)"
    using pos bool_case rest_case by simp_all
  from da arr_case obtain tags
    where arr: "jsonToNbt 3 (JArray [JBoolean True, JNull]) = Inr (NbtList tags)"
      and tags: "map Inr tags = map (jsonToNbt 3) [JBoolean True, JNull]"
    by blast
  from tags have "map Inr tags = map (Inr :: NbtTag \<Rightarrow> error + NbtTag) [NbtByte 1, NbtByte 0]"
    by (simp add: tn)
  then have "tags = [NbtByte 1, NbtByte 0]"
    by (rule map_injective) (simp add: inj_def)
  with arr have c: "jsonToNbt 3 (JArray [JBoolean True, JNull]) = Inr (NbtList [NbtByte 1, NbtByte 0])"
    by simp
  have same: "Object_entries [(''damage'', JNumber (Num (1 / 2))), (''lore'', JArray [JBoolean True, JNull])] =
      [(''damage'', JNumber (Num (1 / 2))), (''lore'', JArray [JBoolean True, JNull])]"
    using k plain_case by simp
  from dv d obj_case obtain tags'
    where obj: "jsonToNbt 3 (JObject [(''damage'', JNumber (Num (1 / 2))), (''lore'', JArray [JBoolean True, JNull])]) =
        Inr (NbtCompound (zip (map fst (Object_entries
          [(''damage'', JNumber (Num (1 / 2))), (''lore'', JArray [JBoolean True, JNull])])) tags'))"
      and tags': "map Inr tags' = map (\<lambda>(k, x). jsonToNbt 3 x) (Object_entries
          [(''damage'', JNumber (Num (1 / 2))), (''lore'', JArray [JBoolean True, JNull])])"
    by blast
  from tags' have "map Inr tags' =
      map (Inr :: NbtTag \<Rightarrow> error + NbtTag) [NbtDouble (Num (1 / 2)), NbtList [NbtByte 1, NbtByte 0]]"
    unfolding same by (simp add: b c)
  then have "tags' = [NbtDouble (Num (1 / 2)), NbtList [NbtByte 1, NbtByte 0]]"
    by (rule map_injective) (simp add: inj_def)
  with obj have e: "jsonToNbt 3 (JObject [(''damage'', JNumber (Num (1 / 2))), (''lore'', JArray [JBoolean True, JNull])]) =
      Inr (NbtCompound [(''damage'', NbtDouble (Num (1 / 2))), (''lore'', NbtList [NbtByte 1, NbtByte 0])])"
    unfolding same by simp
  from dv pos two i h da d k a b c e show ?thesis
    by (elim conjE) (intro conjI; assumption)
qed

section \<open>Properties of the vertical flip\<close>

lemma subarray_chunk: "subarray data (r * b) (r * b + b) = take b (drop (r * b) data)"
  by (simp add: subarray_def drop_take)

lemma length_chunk: "Suc r * b \<le> length data \<Longrightarrow> length (take b (drop (r * b) data)) = b"
  by simp

lemma concat_chunks:
  "concat (map (\<lambda>r. take b (drop (r * b) data)) [0..<k]) = take (k * b) data"
proof (induction k)
  case 0
  show ?case by simp
next
  case (Suc k)
  have "take (k * b) data @ take b (drop (k * b) data) = take (k * b + b) data"
    by (simp add: take_add)
  with Suc show ?case by (simp add: add.commute)
qed

lemma length_concat_rev_chunks:
  "k * b \<le> length data \<Longrightarrow>
   length (concat (map (\<lambda>r. take b (drop (r * b) data)) (rev [0..<k]))) = k * b"
proof (induction k)
  case 0
  show ?case by simp
next
  case (Suc k)
  then have "k * b \<le> length data" and "length (take b (drop (k * b) data)) = b"
    by simp_all
  with Suc.IH show ?case by simp
qed

lemma chunk_of_concat:
  "\<forall>xs\<in>set xss. length xs = b \<Longrightarrow> r < length xss \<Longrightarrow>
   take b (drop (r * b) (concat xss)) = xss ! r"
proof (induction xss arbitrary: r)
  case Nil
  then show ?case by simp
next
  case (Cons xs xss)
  show ?case
  proof (cases r)
    case 0
    with Cons.prems show ?thesis by simp
  next
    case (Suc r')
    with Cons.prems have "take b (drop (r' * b) (concat xss)) = xss ! r'"
      by (intro Cons.IH) simp_all
    moreover have "drop (Suc r' * b) (xs @ concat xss) = drop (r' * b) (concat xss)"
      using Cons.prems(1) by simp
    ultimately show ?thesis using Suc by simp
  qed
qed

lemma flipYAxis_fold:
  "flipYAxis data width height =
     fold (flip_step data (width * 4) height) [0..<height] (Inr (replicate (length data) 0))"
proof -
  have eq: "(\<lambda>row acc.
                 case acc of
                   Inl e \<Rightarrow> Inl e
                 | Inr result \<Rightarrow>
                     typed_set result
                       (subarray data (row * (width * 4)) (row * (width * 4) + width * 4))
                       ((height - row - 1) * (width * 4))) =
            flip_step data (width * 4) height"
    by (intro ext) (simp add: flip_step_def subarray_chunk split: sum.split)
  show ?thesis
    unfolding flipYAxis_def Let_def eq ..
qed

lemma flipYAxis_loop:
  assumes len: "length data = height * b"
    and k: "k \<le> height"
  shows "fold (flip_step data b height) [0..<k] (Inr (replicate (length data) 0)) =
         Inr (replicate ((height - k) * b) 0 @
              concat (map (\<lambda>r. take b (drop (r * b) data)) (rev [0..<k])))"
  using k
proof (induction k)
  case 0
  show ?case by (simp add: len)
next
  case (Suc k)
  define C where "C = concat (map (\<lambda>r. take b (drop (r * b) data)) (rev [0..<k]))"
  define src where "src = take b (drop (k * b) data)"
  define rest where "rest = height - Suc k"
  from Suc.prems have h: "height = Suc k + rest"
    by (simp add: rest_def)
  have "Suc k * b \<le> height * b"
    using Suc.prems by (rule mult_le_mono1)
  then have kb: "Suc k * b \<le> length data"
    by (simp only: len)
  then have lenC: "length C = k * b"
    unfolding C_def by (intro length_concat_rev_chunks) simp
  have lensrc: "length src = b"
    unfolding src_def using kb by (rule length_chunk)
  have hk: "height - k = Suc rest"
    using h by simp
  have set: "typed_set (replicate (Suc rest * b) 0 @ C) src (rest * b) =
      Inr (replicate (rest * b) 0 @ src @ C)"
    by (simp add: typed_set_def lensrc lenC)
  have "fold (flip_step data b height) [0..<k] (Inr (replicate (length data) 0)) =
         Inr (replicate (Suc rest * b) 0 @ C)"
    using Suc.IH Suc.prems by (simp add: C_def hk)
  then have "fold (flip_step data b height) [0..<Suc k] (Inr (replicate (length data) 0)) =
      flip_step data b height k (Inr (replicate (Suc rest * b) 0 @ C))"
    by simp
  also have "\<dots> = typed_set (replicate (Suc rest * b) 0 @ C) src (rest * b)"
    by (simp add: flip_step_def src_def rest_def)
  also have "\<dots> = Inr (replicate (rest * b) 0 @ src @ C)"
    by (rule set)
  also have "\<dots> = Inr (replicate ((height - Suc k) * b) 0 @
      concat (map (\<lambda>r. take b (drop (r * b) data)) (rev [0..<Suc k])))"
    by (simp add: rest_def src_def C_def)
  finally show ?case .
qed

lemma flipYAxis_rows:
  assumes "length data = width * height * 4"
  shows "flipYAxis data width height =
           Inr (concat (map (\<lambda>r. take (width * 4) (drop (r * (width * 4)) data)) (rev [0..<height])))"
proof -
  have len: "length data = height * (width * 4)"
    using assms by (simp add: mult.commute mult.left_commute)
  show ?thesis
    unfolding flipYAxis_fold
    using flipYAxis_loop [OF len order_refl] by simp
qed

lemma chunk_of_flipped:
  assumes len: "length data = height * b"
    and r: "r < height"
  shows "take b (drop (r * b)
           (concat (map (\<lambda>r. take b (drop (r * b) data)) (rev [0..<height])))) =
         take b (drop ((height - 1 - r) * b) data)"
proof -
  have all: "\<forall>xs\<in>set (map (\<lambda>r. take b (drop (r * b) data)) (rev [0..<height])). length xs = b"
  proof
    fix xs
    assume "xs \<in> set (map (\<lambda>r. take b (drop (r * b) data)) (rev [0..<height]))"
    then obtain r' where r': "r' < height" and xs: "xs = take b (drop (r' * b) data)"
      by auto
    from r' have "Suc r' \<le> height"
      by simp
    then have "Suc r' * b \<le> height * b"
      by (rule mult_le_mono1)
    then have "Suc r' * b \<le> length data"
      by (simp only: len)
    then show "length xs = b"
      unfolding xs by (rule length_chunk)
  qed
  have rlt: "r < length (map (\<lambda>r. take b (drop (r * b) data)) (rev [0..<height]))"
    using r by simp
  have "take b (drop (r * b)
           (concat (map (\<lambda>r. take b (drop (r * b) data)) (rev [0..<height])))) =
         map (\<lambda>r. take b (drop (r * b) data)) (rev [0..<height]) ! r"
    using all rlt by (rule chunk_of_concat)
  also have "\<dots> = take b (drop ((rev [0..<height] ! r) * b) data)"
    using r by (simp only: nth_map length_rev length_upt minus_nat.diff_0)
  also have "rev [0..<height] ! r = height - 1 - r"
    using r by (simp add: rev_nth)
  finally show ?thesis .
qed

lemma rev_upt_mirror: "map (\<lambda>r. height - 1 - r) (rev [0..<height]) = [0..<height]"
  by (rule nth_equalityI) (simp_all add: rev_nth)

text \<open>
  C7. For every RGBA8 buffer of length \<open>w * h * 4\<close> the flip returns, without an exception,
  a buffer of the same length whose row \<open>r\<close> is row \<open>h - 1 - r\<close> of the input for every
  \<open>r < h\<close>, each row being the contiguous block of \<open>4 * w\<close> bytes in its original order. A
  buffer of 2 rows of 2 pixels, bytes 1 to 16, comes out as bytes 9 to 16 followed by
  bytes 1 to 8.
\<close>

theorem flipYAxis_reverses_rows:
  assumes "length data = width * height * 4"
  shows "(\<exists>result. flipYAxis data width height = Inr result \<and>
            length result = length data \<and>
            (\<forall>r<height. row_of result width r = row_of data width (height - 1 - r))) \<and>
         flipYAxis [1, 2, 3, 4, 5, 6, 7, 8, 9, 10, 11, 12, 13, 14, 15, 16] 2 2 =
           Inr [9, 10, 11, 12, 13, 14, 15, 16, 1, 2, 3, 4, 5, 6, 7, 8]"
proof -
  define b where "b = width * 4"
  define result where
    "result = concat (map (\<lambda>r. take b (drop (r * b) data)) (rev [0..<height]))"
  have len: "length data = height * b"
    using assms by (simp add: b_def mult.commute mult.left_commute)
  have flip: "flipYAxis data width height = Inr result"
    using flipYAxis_rows [OF assms] by (simp add: result_def b_def)
  have "length result = height * b"
    unfolding result_def by (intro length_concat_rev_chunks) (simp add: len)
  then have same: "length result = length data"
    by (simp add: len)
  have rows: "row_of result width r = row_of data width (height - 1 - r)" if "r < height" for r
    using chunk_of_flipped [OF len that]
    by (simp add: row_of_def subarray_chunk b_def [symmetric] result_def)
  have ex: "flipYAxis [1, 2, 3, 4, 5, 6, 7, 8, 9, 10, 11, 12, 13, 14, 15, 16] 2 2 =
      Inr [9, 10, 11, 12, 13, 14, 15, 16, 1, 2, 3, 4, 5, 6, 7, 8]"
  proof -
    have u: "[0..<2] = [0, Suc 0]"
      by (simp add: upt_conv_Cons)
    show ?thesis
      by (simp add: flipYAxis_def typed_set_def subarray_def u)
  qed
  from flip same rows ex show ?thesis by blast
qed

theorem flipYAxis_reverses_rows_witness:
  "length [10, 11, 12, 13, 20, 21, 22, 23 :: byte] = 1 * 2 * 4 \<and>
   flipYAxis [10, 11, 12, 13, 20, 21, 22, 23] 1 2 = Inr [20, 21, 22, 23, 10, 11, 12, 13] \<and>
   row_of [20, 21, 22, 23, 10, 11, 12, 13 :: byte] 1 0 = row_of [10, 11, 12, 13, 20, 21, 22, 23] 1 1 \<and>
   row_of [20, 21, 22, 23, 10, 11, 12, 13 :: byte] 1 1 = row_of [10, 11, 12, 13, 20, 21, 22, 23] 1 0"
proof -
  have l: "length [10, 11, 12, 13, 20, 21, 22, 23 :: byte] = 1 * 2 * 4"
    by simp
  from flipYAxis_reverses_rows [OF l] obtain result
    where flip: "flipYAxis [10, 11, 12, 13, 20, 21, 22, 23] 1 2 = Inr result"
      and len: "length result = length [10, 11, 12, 13, 20, 21, 22, 23 :: byte]"
      and rows: "\<forall>r<2. row_of result 1 r = row_of [10, 11, 12, 13, 20, 21, 22, 23] 1 (2 - 1 - r)"
    by blast
  have "row_of result 1 0 = row_of [10, 11, 12, 13, 20, 21, 22, 23] 1 (2 - 1 - 0)"
    using rows by simp
  then have r0: "row_of result 1 0 = [20, 21, 22, 23]"
    by (simp add: row_of_def subarray_def)
  have "row_of result 1 1 = row_of [10, 11, 12, 13, 20, 21, 22, 23] 1 (2 - 1 - 1)"
    using rows by (simp del: One_nat_def)
  then have r1: "row_of result 1 1 = [10, 11, 12, 13]"
    by (simp add: row_of_def subarray_def)
  from len have "result = take 4 result @ take 4 (drop 4 result)"
    by (simp add: take_add [symmetric])
  also have "\<dots> = row_of result 1 0 @ row_of result 1 1"
    by (simp add: row_of_def subarray_def drop_take)
  finally have "result = row_of result 1 0 @ row_of result 1 1" .
  then have "result = [20, 21, 22, 23] @ [10, 11, 12, 13]"
    by (simp only: r0 r1)
  then have "result = [20, 21, 22, 23, 10, 11, 12, 13]"
    by simp
  with flip l show ?thesis
    by (simp add: row_of_def subarray_def)
qed

text \<open>
  C10. The flip is an involution: for every buffer of length \<open>w * h * 4\<close>, flipping with
  width \<open>w\<close> and height \<open>h\<close> and flipping the result again with the same width and height
  gives back the original buffer, byte for byte.
\<close>

theorem flipYAxis_involution:
  assumes "length data = width * height * 4"
  shows "\<exists>flipped. flipYAxis data width height = Inr flipped \<and>
           flipYAxis flipped width height = Inr data"
proof -
  define b where "b = width * 4"
  define flipped where
    "flipped = concat (map (\<lambda>r. take b (drop (r * b) data)) (rev [0..<height]))"
  have len: "length data = height * b"
    using assms by (simp add: b_def mult.commute mult.left_commute)
  have once: "flipYAxis data width height = Inr flipped"
    using flipYAxis_rows [OF assms] by (simp add: flipped_def b_def)
  have "length flipped = height * b"
    unfolding flipped_def by (intro length_concat_rev_chunks) (simp add: len)
  then have len': "length flipped = width * height * 4"
    by (simp add: b_def mult.commute mult.left_commute)
  have "map (\<lambda>r. take b (drop (r * b) flipped)) (rev [0..<height]) =
      map (\<lambda>r. take b (drop ((height - 1 - r) * b) data)) (rev [0..<height])"
    using chunk_of_flipped [OF len] by (simp add: flipped_def)
  also have "\<dots> = map (\<lambda>r. take b (drop (r * b) data)) (map (\<lambda>r. height - 1 - r) (rev [0..<height]))"
    by (simp add: comp_def)
  also have "\<dots> = map (\<lambda>r. take b (drop (r * b) data)) [0..<height]"
    by (simp only: rev_upt_mirror)
  finally have "concat (map (\<lambda>r. take b (drop (r * b) flipped)) (rev [0..<height])) =
      take (height * b) data"
    by (simp only: concat_chunks)
  then have "flipYAxis flipped width height = Inr data"
    using flipYAxis_rows [OF len'] by (simp add: b_def [symmetric] len)
  with once show ?thesis by blast
qed

theorem flipYAxis_involution_witness:
  "length [10, 11, 12, 13, 20, 21, 22, 23 :: byte] = 1 * 2 * 4 \<and>
   (\<exists>flipped. flipYAxis [10, 11, 12, 13, 20, 21, 22, 23] 1 2 = Inr flipped \<and>
      flipYAxis flipped 1 2 = Inr [10, 11, 12, 13, 20, 21, 22, 23])"
proof -
  have l: "length [10, 11, 12, 13, 20, 21, 22, 23 :: byte] = 1 * 2 * 4"
    by simp
  from l flipYAxis_involution [OF l] show ?thesis ..
qed

section \<open>Properties of the Render Orchestrator\<close>

lemma length_readPixels: "length (readPixels size' frame) = size' * size' * 4"
  by (simp add: readPixels_def)

lemma flipYAxis_readPixels:
  "\<exists>flipped. flipYAxis (readPixels size' frame) size' size' = Inr flipped \<and>
     length flipped = size' * size' * 4"
proof -
  have "size' * (size' * 4) \<le> length (readPixels size' frame)"
    by (simp add: length_readPixels)
  then have "length (concat (map (\<lambda>r. take (size' * 4) (drop (r * (size' * 4)) (readPixels size' frame)))
      (rev [0..<size']))) = size' * (size' * 4)"
    by (rule length_concat_rev_chunks)
  then show ?thesis
    using flipYAxis_rows [OF length_readPixels, of size' frame] by simp
qed

lemma renderItemToPng_drawn:
  assumes "drawItem e item size' = Inr frame"
  shows "\<exists>flipped. renderItemToPng e item size' = toBuffer e flipped size'"
proof -
  from flipYAxis_readPixels obtain flipped
    where "flipYAxis (readPixels size' frame) size' size' = Inr flipped"
      and "length flipped = size' * size' * 4"
    by blast
  with assms have "renderItemToPng e item size' = toBuffer e flipped size'"
    by (simp add: renderItemToPng_def typed_set_def)
  then show ?thesis ..
qed

lemma main_loop_append:
  "main_loop e twoD (xs @ ys) files =
     (case main_loop e twoD xs files of
        (files1, log1) \<Rightarrow>
          (case main_loop e twoD ys files1 of
             (files2, log2) \<Rightarrow> (files2, log1 @ log2)))"
  by (induction xs arbitrary: files) (auto split: prod.splits)

lemma main_loop_Cons:
  "main_loop e twoD (id' # ids) files =
     (fst (main_loop e twoD ids (fst (render_one e twoD id' files))),
      (id', snd (render_one e twoD id' files)) #
        snd (main_loop e twoD ids (fst (render_one e twoD id' files))))"
  by (simp add: case_prod_beta)

lemma main_loop_ids: "map fst (snd (main_loop e twoD ids files)) = ids"
  by (induction ids arbitrary: files) (simp_all add: main_loop_Cons del: main_loop.simps(2))

lemma render_one_cases:
  "render_one e twoD id' files =
     (if \<not> getItemModel e (''minecraft:'' @ id') then (files, SKIPPED_NO_MODEL)
      else if files (id' @ ''.png'') \<noteq> None then (files, SKIPPED_EXISTS)
      else case renderItemToPng e id' (render_size twoD id') of
             Inl err \<Rightarrow> (files, FAILED)
           | Inr png \<Rightarrow>
               (case writeFile_error e (id' @ ''.png'') png of
                  Some err \<Rightarrow> (files, FAILED)
                | None \<Rightarrow> (files(id' @ ''.png'' \<mapsto> png), SUCCEEDED)))"
  by (simp add: render_one_def Let_def)

lemma render_one_preserves:
  assumes "files p = Some c"
  shows "fst (render_one e twoD id' files) p = Some c"
proof (cases "files (id' @ ''.png'') = None")
  case True
  with assms have "p \<noteq> id' @ ''.png''" by auto
  with assms show ?thesis
    by (simp add: render_one_cases split: sum.split option.split)
next
  case False
  with assms show ?thesis
    by (simp add: render_one_cases)
qed

lemma main_loop_preserves:
  "files p = Some c \<Longrightarrow> fst (main_loop e twoD ids files) p = Some c"
proof (induction ids arbitrary: files)
  case Nil
  then show ?case by simp
next
  case (Cons id' ids)
  from Cons.prems have "fst (render_one e twoD id' files) p = Some c"
    by (rule render_one_preserves)
  then have "fst (main_loop e twoD ids (fst (render_one e twoD id' files))) p = Some c"
    by (rule Cons.IH)
  then show ?case
    by (simp add: main_loop_Cons del: main_loop.simps(2))
qed

text \<open>
  C8. The loop logs exactly one outcome for every id of the registry list, in registry
  order, each one of \<open>SKIPPED_NO_MODEL\<close>, \<open>SKIPPED_EXISTS\<close>, \<open>SUCCEEDED\<close> and \<open>FAILED\<close>. For one
  id: without an item model the outcome is \<open>SKIPPED_NO_MODEL\<close>, whether or not the output
  file exists; with a model and an existing output file it is \<open>SKIPPED_EXISTS\<close>; otherwise
  an exception of the renderer, of the encoder or of the write gives \<open>FAILED\<close> and leaves
  the output directory as it was, and a render that returns is written and gives
  \<open>SUCCEEDED\<close>. The batch goes on after every outcome: the ids before a failed id and the
  ids after it are processed as if the failed id were not in the list.
\<close>

theorem render_loop_outcomes:
  "map fst (snd (main_loop e twoD ids files)) = ids \<and>
   (\<not> getItemModel e (''minecraft:'' @ id') \<longrightarrow>
      render_one e twoD id' files = (files, SKIPPED_NO_MODEL)) \<and>
   (getItemModel e (''minecraft:'' @ id') \<and> files (id' @ ''.png'') \<noteq> None \<longrightarrow>
      render_one e twoD id' files = (files, SKIPPED_EXISTS)) \<and>
   (getItemModel e (''minecraft:'' @ id') \<and> files (id' @ ''.png'') = None \<and>
    drawItem e id' (render_size twoD id') = Inl err \<longrightarrow>
      render_one e twoD id' files = (files, FAILED)) \<and>
   (getItemModel e (''minecraft:'' @ id') \<and> files (id' @ ''.png'') = None \<and>
    renderItemToPng e id' (render_size twoD id') = Inl err \<longrightarrow>
      render_one e twoD id' files = (files, FAILED)) \<and>
   (getItemModel e (''minecraft:'' @ id') \<and> files (id' @ ''.png'') = None \<and>
    renderItemToPng e id' (render_size twoD id') = Inr png \<and>
    writeFile_error e (id' @ ''.png'') png = Some err \<longrightarrow>
      render_one e twoD id' files = (files, FAILED)) \<and>
   (getItemModel e (''minecraft:'' @ id') \<and> files (id' @ ''.png'') = None \<and>
    renderItemToPng e id' (render_size twoD id') = Inr png \<and>
    writeFile_error e (id' @ ''.png'') png = None \<longrightarrow>
      render_one e twoD id' files = (files(id' @ ''.png'' \<mapsto> png), SUCCEEDED)) \<and>
   (main_loop e twoD before files = (files1, log1) \<and>
    render_one e twoD id' files1 = (files1', FAILED) \<and>
    main_loop e twoD after files1 = (files2, log2) \<longrightarrow>
      files1' = files1 \<and>
      main_loop e twoD (before @ id' # after) files = (files2, log1 @ (id', FAILED) # log2))"
    (is "?ids \<and> ?nomodel \<and> ?exists \<and> ?draw \<and> ?render \<and> ?wfail \<and> ?succ \<and> ?isolated")
proof -
  have ?ids by (rule main_loop_ids)
  moreover have ?nomodel by (simp add: render_one_cases)
  moreover have ?exists by (simp add: render_one_cases)
  moreover have ?draw by (simp add: render_one_cases renderItemToPng_def)
  moreover have ?render by (simp add: render_one_cases)
  moreover have ?wfail by (simp add: render_one_cases)
  moreover have ?succ by (simp add: render_one_cases)
  moreover have ?isolated
  proof (intro impI, elim conjE)
    assume b: "main_loop e twoD before files = (files1, log1)"
      and r: "render_one e twoD id' files1 = (files1', FAILED)"
      and a: "main_loop e twoD after files1 = (files2, log2)"
    from r have same: "files1' = files1"
      by (auto simp: render_one_cases split: if_splits sum.splits option.splits)
    with b r a have "main_loop e twoD (before @ id' # after) files =
        (files2, log1 @ (id', FAILED) # log2)"
      by (simp add: main_loop_append)
    with same show "files1' = files1 \<and>
        main_loop e twoD (before @ id' # after) files = (files2, log1 @ (id', FAILED) # log2)"
      by simp
  qed
  ultimately show ?thesis by blast
qed

theorem render_loop_outcomes_witness:
  "\<not> getItemModel demo_env ''minecraft:air'' \<and>
   getItemModel demo_env ''minecraft:stone'' \<and> demo_files ''stone.png'' \<noteq> None \<and>
   getItemModel demo_env ''minecraft:broken'' \<and> demo_files ''broken.png'' = None \<and>
   drawItem demo_env ''broken'' (render_size [''apple''] ''broken'') = Inl (Thrown ''draw'') \<and>
   getItemModel demo_env ''minecraft:locked'' \<and> demo_files ''locked.png'' = None \<and>
   renderItemToPng demo_env ''locked'' (render_size [''apple''] ''locked'') = Inr [137, 80, 78, 71] \<and>
   writeFile_error demo_env ''locked.png'' [137, 80, 78, 71] = Some (Thrown ''EACCES'') \<and>
   getItemModel demo_env ''minecraft:apple'' \<and> demo_files ''apple.png'' = None \<and>
   renderItemToPng demo_env ''apple'' (render_size [''apple''] ''apple'') = Inr [137, 80, 78, 71] \<and>
   writeFile_error demo_env ''apple.png'' [137, 80, 78, 71] = None \<and>
   main_loop demo_env [''apple''] [''air'', ''stone'', ''broken'', ''locked'', ''apple''] demo_files =
     (demo_files(''apple.png'' \<mapsto> [137, 80, 78, 71]),
      [(''air'', SKIPPED_NO_MODEL), (''stone'', SKIPPED_EXISTS), (''broken'', FAILED),
       (''locked'', FAILED), (''apple'', SUCCEEDED)])"
proof -
  have air: "\<not> getItemModel demo_env ''minecraft:air''"
    by (simp add: getItemModel_def demo_env_def)
  have stone: "getItemModel demo_env ''minecraft:stone'' \<and> demo_files ''stone.png'' \<noteq> None"
    by (simp add: getItemModel_def demo_env_def demo_files_def)
  have broken: "getItemModel demo_env ''minecraft:broken'' \<and> demo_files ''broken.png'' = None \<and>
      drawItem demo_env ''broken'' (render_size [''apple''] ''broken'') = Inl (Thrown ''draw'')"
    by (simp add: getItemModel_def demo_env_def demo_files_def)
  have png: "renderItemToPng demo_env item size' = Inr [137, 80, 78, 71]"
    if "drawItem demo_env item size' = Inr []" for item size'
    using renderItemToPng_drawn [OF that] by (simp add: demo_env_def)
  have png_locked: "renderItemToPng demo_env ''locked'' size' = Inr [137, 80, 78, 71]" for size'
    by (rule png) (simp add: demo_env_def)
  have png_apple: "renderItemToPng demo_env ''apple'' size' = Inr [137, 80, 78, 71]" for size'
    by (rule png) (simp add: demo_env_def)
  have locked: "getItemModel demo_env ''minecraft:locked'' \<and> demo_files ''locked.png'' = None \<and>
      renderItemToPng demo_env ''locked'' (render_size [''apple''] ''locked'') = Inr [137, 80, 78, 71] \<and>
      writeFile_error demo_env ''locked.png'' [137, 80, 78, 71] = Some (Thrown ''EACCES'')"
    by (simp add: getItemModel_def demo_files_def png_locked) (simp add: demo_env_def)
  have apple: "getItemModel demo_env ''minecraft:apple'' \<and> demo_files ''apple.png'' = None \<and>
      renderItemToPng demo_env ''apple'' (render_size [''apple''] ''apple'') = Inr [137, 80, 78, 71] \<and>
      writeFile_error demo_env ''apple.png'' [137, 80, 78, 71] = None"
    by (simp add: getItemModel_def demo_files_def png_apple) (simp add: demo_env_def)
  have r1: "render_one demo_env [''apple''] ''air'' demo_files = (demo_files, SKIPPED_NO_MODEL)"
    using air render_loop_outcomes [where e = demo_env and twoD = "[''apple'']" and files = demo_files
        and id' = "''air''"]
    by simp
  have r2: "render_one demo_env [''apple''] ''stone'' demo_files = (demo_files, SKIPPED_EXISTS)"
    using stone render_loop_outcomes [where e = demo_env and twoD = "[''apple'']" and files = demo_files
        and id' = "''stone''"]
    by simp
  have r3: "render_one demo_env [''apple''] ''broken'' demo_files = (demo_files, FAILED)"
    using broken
      render_loop_outcomes [where e = demo_env and twoD = "[''apple'']" and files = demo_files
        and id' = "''broken''" and err = "Thrown ''draw''"]
    by simp
  have r4: "render_one demo_env [''apple''] ''locked'' demo_files = (demo_files, FAILED)"
    using locked
      render_loop_outcomes [where e = demo_env and twoD = "[''apple'']" and files = demo_files
        and id' = "''locked''" and png = "[137, 80, 78, 71]" and err = "Thrown ''EACCES''"]
    by simp
  have r5: "render_one demo_env [''apple''] ''apple'' demo_files =
      (demo_files(''apple.png'' \<mapsto> [137, 80, 78, 71]), SUCCEEDED)"
    using apple
      render_loop_outcomes [where e = demo_env and twoD = "[''apple'']" and files = demo_files
        and id' = "''apple''" and png = "[137, 80, 78, 71]"]
    by simp
  have before: "main_loop demo_env [''apple''] [''air'', ''stone''] demo_files =
      (demo_files, [(''air'', SKIPPED_NO_MODEL), (''stone'', SKIPPED_EXISTS)])"
    by (simp add: r1 r2)
  have after: "main_loop demo_env [''apple''] [''locked'', ''apple''] demo_files =
      (demo_files(''apple.png'' \<mapsto> [137, 80, 78, 71]), [(''locked'', FAILED), (''apple'', SUCCEEDED)])"
    by (simp add: r4 r5)
  have "main_loop demo_env [''apple''] ([''air'', ''stone''] @ ''broken'' # [''locked'', ''apple''])
      demo_files =
      (demo_files(''apple.png'' \<mapsto> [137, 80, 78, 71]),
       [(''air'', SKIPPED_NO_MODEL), (''stone'', SKIPPED_EXISTS)] @ (''broken'', FAILED) #
         [(''locked'', FAILED), (''apple'', SUCCEEDED)])"
    using before r3 after
      render_loop_outcomes [where e = demo_env and twoD = "[''apple'']" and files = demo_files
        and id' = "''broken''" and before = "[''air'', ''stone'']" and ?files1.0 = demo_files
        and ?log1.0 = "[(''air'', SKIPPED_NO_MODEL), (''stone'', SKIPPED_EXISTS)]"
        and files1' = demo_files and after = "[''locked'', ''apple'']"
        and ?files2.0 = "demo_files(''apple.png'' \<mapsto> [137, 80, 78, 71])"
        and ?log2.0 = "[(''locked'', FAILED), (''apple'', SUCCEEDED)]"]
    by blast
  then have all: "main_loop demo_env [''apple''] [''air'', ''stone'', ''broken'', ''locked'', ''apple'']
      demo_files =
      (demo_files(''apple.png'' \<mapsto> [137, 80, 78, 71]),
       [(''air'', SKIPPED_NO_MODEL), (''stone'', SKIPPED_EXISTS), (''broken'', FAILED),
        (''locked'', FAILED), (''apple'', SUCCEEDED)])"
    by (simp only: append.simps)
  from air stone broken locked apple all show ?thesis
    by blast
qed

section \<open>Properties of the existing output files\<close>

lemma merge_entries_other:
  "name \<notin> fst ` set entries \<Longrightarrow> merge_entries e entries files name = files name"
  by (induction e entries files rule: merge_entries.induct) auto

lemma merge_entries_copied:
  "distinct (map fst entries) \<Longrightarrow> (name, True, content) \<in> set entries \<Longrightarrow>
   endsWith (toLowerCase name) ''.png'' \<Longrightarrow> \<forall>n\<in>fst ` set entries. \<not> copyFile_error e n \<Longrightarrow>
   merge_entries e entries files name = Some content"
proof (induction e entries files rule: merge_entries.induct)
  case (1 e files)
  then show ?case by simp
next
  case (2 e n isFile c entries files)
  show ?case
  proof (cases "(n, isFile, c) = (name, True, content)")
    case True
    with "2.prems" have "name \<notin> fst ` set entries"
      by auto
    then have "merge_entries e entries (files(name \<mapsto> content)) name =
        (files(name \<mapsto> content)) name"
      by (rule merge_entries_other)
    with True "2.prems" show ?thesis by simp
  next
    case False
    with "2.prems" have d: "distinct (map fst entries)" and m: "(name, True, content) \<in> set entries"
      and f: "\<forall>n\<in>fst ` set entries. \<not> copyFile_error e n" and nf: "\<not> copyFile_error e n"
      by auto
    show ?thesis
    proof (cases "isFile \<and> endsWith (toLowerCase n) ''.png''")
      case True
      with nf have "merge_entries e ((n, isFile, c) # entries) files name =
          merge_entries e entries (files(n \<mapsto> c)) name"
        by simp
      also have "\<dots> = Some content"
        using True nf d m "2.prems"(3) f by (intro "2.IH"(1)) simp_all
      finally show ?thesis .
    next
      case False
      then have "merge_entries e ((n, isFile, c) # entries) files name =
          merge_entries e entries files name"
        by auto
      also have "\<dots> = Some content"
        using False d m "2.prems"(3) f by (intro "2.IH"(2)) simp_all
      finally show ?thesis .
    qed
  qed
qed

text \<open>
  C9 as stated fails for an id without an item model: the model is tested before the
  output file is looked at, so such an id whose output file exists is logged as
  \<open>SKIPPED_NO_MODEL\<close>, not as \<open>SKIPPED_EXISTS\<close>.
\<close>

theorem existing_output_without_model:
  "\<not> getItemModel demo_env ''minecraft:air'' \<and>
   (demo_files(''air.png'' \<mapsto> [5])) ''air.png'' = Some [5] \<and>
   render_one demo_env [''apple''] ''air'' (demo_files(''air.png'' \<mapsto> [5])) =
     (demo_files(''air.png'' \<mapsto> [5]), SKIPPED_NO_MODEL)"
  by (simp add: render_one_cases getItemModel_def demo_env_def)

text \<open>
  C9, amended. For a candidate id with an item model whose output file exists, the loop
  takes the \<open>SKIPPED_EXISTS\<close> branch; an id without an item model whose output file exists
  is skipped as \<open>SKIPPED_NO_MODEL\<close>; in both cases the output directory is left as it is.
  No file that exists when the loop starts is changed by the loop, whatever the ids; so
  after the whole run a file that existed before still has its contents unless the
  Override Merger copied a file of the same name, and the Override Merger does overwrite:
  a hand-made \<open>.png\<close> file that is copied replaces what the output directory held under
  that name.
\<close>

theorem existing_output_kept:
  "(getItemModel e (''minecraft:'' @ id') \<and> files (id' @ ''.png'') = Some c \<longrightarrow>
      render_one e twoD id' files = (files, SKIPPED_EXISTS)) \<and>
   (\<not> getItemModel e (''minecraft:'' @ id') \<and> files (id' @ ''.png'') = Some c \<longrightarrow>
      render_one e twoD id' files = (files, SKIPPED_NO_MODEL)) \<and>
   (files p = Some c \<longrightarrow> fst (main_loop e twoD ids files) p = Some c) \<and>
   (files p = Some c \<longrightarrow> fst (main e ids textures None files) p = Some c) \<and>
   (files p = Some c \<and> p \<notin> fst ` set entries \<longrightarrow>
      fst (main e ids textures (Some entries) files) p = Some c) \<and>
   (distinct (map fst entries) \<and> (name, True, content) \<in> set entries \<and>
    endsWith (toLowerCase name) ''.png'' \<and> (\<forall>n\<in>fst ` set entries. \<not> copyFile_error e n) \<longrightarrow>
      fst (main e ids textures (Some entries) files) name = Some content)"
    (is "?skip \<and> ?nomodel \<and> ?loop \<and> ?nodir \<and> ?other \<and> ?merged")
proof -
  have main_fst: "fst (main e ids textures hardcoded files) =
      mergeHardcodedIcons e hardcoded
        (fst (main_loop e (twoDItemIds (fetchTwoDItemIds textures)) ids files))"
    for hardcoded
    by (simp add: main_def case_prod_beta Let_def)
  have ?skip by (simp add: render_one_cases)
  moreover have ?nomodel by (simp add: render_one_cases)
  moreover have ?loop by (simp add: main_loop_preserves)
  moreover have ?nodir
    by (simp add: main_fst mergeHardcodedIcons_def main_loop_preserves)
  moreover have ?other
    by (simp add: main_fst mergeHardcodedIcons_def merge_entries_other main_loop_preserves)
  moreover have ?merged
    by (simp add: main_fst mergeHardcodedIcons_def merge_entries_copied)
  ultimately show ?thesis by blast
qed

theorem existing_output_kept_witness:
  "getItemModel demo_env ''minecraft:stone'' \<and> demo_files ''stone.png'' = Some [1, 2, 3] \<and>
   render_one demo_env [''apple''] ''stone'' demo_files = (demo_files, SKIPPED_EXISTS) \<and>
   \<not> getItemModel demo_env ''minecraft:air'' \<and>
   (demo_files(''air.png'' \<mapsto> [5])) ''air.png'' = Some [5] \<and>
   render_one demo_env [''apple''] ''air'' (demo_files(''air.png'' \<mapsto> [5])) =
     (demo_files(''air.png'' \<mapsto> [5]), SKIPPED_NO_MODEL) \<and>
   fst (main_loop demo_env [''apple''] [''air'', ''stone'', ''apple''] demo_files) ''stone.png'' =
     Some [1, 2, 3] \<and>
   fst (main demo_env [''air'', ''stone'', ''apple''] [''item/apple''] None demo_files) ''stone.png'' =
     Some [1, 2, 3] \<and>
   ''stone.png'' \<notin> fst ` set [(''player_head.PNG'', True, [7, 7]), (''notes.txt'', True, [0 :: byte])] \<and>
   fst (main demo_env [''air'', ''stone'', ''apple''] [''item/apple'']
         (Some [(''player_head.PNG'', True, [7, 7]), (''notes.txt'', True, [0])]) demo_files)
     ''stone.png'' = Some [1, 2, 3] \<and>
   distinct (map fst [(''stone.png'', True, [9, 9 :: byte]), (''notes.txt'', True, [0])]) \<and>
   endsWith (toLowerCase ''stone.png'') ''.png'' \<and>
   \<not> copyFile_error demo_env ''stone.png'' \<and> \<not> copyFile_error demo_env ''notes.txt'' \<and>
   fst (main demo_env [''air'', ''stone'', ''apple''] [''item/apple'']
         (Some [(''stone.png'', True, [9, 9]), (''notes.txt'', True, [0])]) demo_files)
     ''stone.png'' = Some [9, 9]"
proof -
  have stone: "getItemModel demo_env ''minecraft:stone'' \<and> demo_files ''stone.png'' = Some [1, 2, 3]"
    by (simp add: getItemModel_def demo_env_def demo_files_def)
  have notin: "''stone.png'' \<notin>
      fst ` set [(''player_head.PNG'', True, [7, 7]), (''notes.txt'', True, [0 :: byte])]"
    by simp
  have d: "distinct (map fst [(''stone.png'', True, [9, 9 :: byte]), (''notes.txt'', True, [0])])"
    by simp
  have m: "(''stone.png'', True, [9, 9]) \<in>
      set [(''stone.png'', True, [9, 9 :: byte]), (''notes.txt'', True, [0])]"
    by simp
  have p: "endsWith (toLowerCase ''stone.png'') ''.png''"
    by (simp add: endsWith_def toLowerCase_def)
  have f: "\<forall>n\<in>fst ` set [(''stone.png'', True, [9, 9 :: byte]), (''notes.txt'', True, [0])].
      \<not> copyFile_error demo_env n"
    by (simp add: demo_env_def)
  note thm1 = existing_output_kept [where e = demo_env and id' = "''stone''" and files = demo_files
      and c = "[1, 2, 3]" and twoD = "[''apple'']" and p = "''stone.png''"
      and ids = "[''air'', ''stone'', ''apple'']" and textures = "[''item/apple'']"
      and entries = "[(''player_head.PNG'', True, [7, 7]), (''notes.txt'', True, [0])]"]
  note thm2 = existing_output_kept [where e = demo_env and files = demo_files
      and ids = "[''air'', ''stone'', ''apple'']" and textures = "[''item/apple'']"
      and entries = "[(''stone.png'', True, [9, 9]), (''notes.txt'', True, [0])]"
      and name = "''stone.png''" and content = "[9, 9]"]
  have stone': "getItemModel demo_env (''minecraft:'' @ ''stone'') \<and>
      demo_files (''stone'' @ ''.png'') = Some [1, 2, 3]"
    using stone by simp
  from stone stone' notin thm1
  have a: "render_one demo_env [''apple''] ''stone'' demo_files = (demo_files, SKIPPED_EXISTS) \<and>
      fst (main_loop demo_env [''apple''] [''air'', ''stone'', ''apple''] demo_files) ''stone.png'' =
        Some [1, 2, 3] \<and>
      fst (main demo_env [''air'', ''stone'', ''apple''] [''item/apple''] None demo_files) ''stone.png'' =
        Some [1, 2, 3] \<and>
      fst (main demo_env [''air'', ''stone'', ''apple''] [''item/apple'']
            (Some [(''player_head.PNG'', True, [7, 7]), (''notes.txt'', True, [0])]) demo_files)
        ''stone.png'' = Some [1, 2, 3]"
    by blast
  from d m p f thm2
  have b: "fst (main demo_env [''air'', ''stone'', ''apple''] [''item/apple'']
         (Some [(''stone.png'', True, [9, 9]), (''notes.txt'', True, [0])]) demo_files)
     ''stone.png'' = Some [9, 9]"
    by blast
  have f': "\<not> copyFile_error demo_env ''stone.png'' \<and> \<not> copyFile_error demo_env ''notes.txt''"
    by (simp add: demo_env_def)
  have air: "\<not> getItemModel demo_env ''minecraft:air'' \<and>
      (demo_files(''air.png'' \<mapsto> [5])) ''air.png'' = Some [5]"
    by (simp add: getItemModel_def demo_env_def)
  have air': "\<not> getItemModel demo_env (''minecraft:'' @ ''air'') \<and>
      (demo_files(''air.png'' \<mapsto> [5])) (''air'' @ ''.png'') = Some [5]"
    using air by simp
  have n: "render_one demo_env [''apple''] ''air'' (demo_files(''air.png'' \<mapsto> [5])) =
      (demo_files(''air.png'' \<mapsto> [5]), SKIPPED_NO_MODEL)"
    by (rule existing_output_kept [where e = demo_env and id' = "''air''"
          and files = "demo_files(''air.png'' \<mapsto> [5])" and c = "[5]" and twoD = "[''apple'']",
          THEN conjunct2, THEN conjunct1, THEN mp, OF air'])
  from stone a air n notin d p f' b show ?thesis
    by (elim conjE) (intro conjI; assumption)
qed

end
